theory Spec2Isabelle
  imports Main
begin

section \<open>Text\<close>

text \<open>
  JavaScript strings are modelled as \<^typ>\<open>string\<close>: a list of characters, each standing
  for one code unit. The only characters the code distinguishes are the line feed, the
  carriage return, the word characters and the letters of its literals. Code units
  beyond the 256 characters of the type, among them the two Unicode line separators, are
  outside the model.
\<close>

definition nl :: char where
  "nl = CHR 0x0A"

definition cr :: char where
  "cr = CHR 0x0D"

text \<open>
  \<^verbatim>\<open>buffer.split('\n\n')\<close>: the scan runs from the left; where the next two characters are
  both line feeds the current segment is closed and the scan goes on behind them. The
  result is never empty.
\<close>

fun split_nn :: "string \<Rightarrow> string list" where
  "split_nn (c # d # cs) =
     (if c = nl \<and> d = nl then [] # split_nn cs
      else (case split_nn (d # cs) of
              [] \<Rightarrow> [[c]]
            | x # xs \<Rightarrow> (c # x) # xs))"
| "split_nn cs = [cs]"

text \<open>\<^verbatim>\<open>lines.pop() || ''\<close> together with what is left in \<^verbatim>\<open>lines\<close>.\<close>

definition pop_or_empty :: "string list \<Rightarrow> string list \<times> string" where
  "pop_or_empty lines = (if lines = [] then ([], []) else (butlast lines, last lines))"

text \<open>\<^verbatim>\<open>line.startsWith('data: ')\<close> and \<^verbatim>\<open>line.slice(6)\<close>.\<close>

definition startsWith :: "string \<Rightarrow> string \<Rightarrow> bool" where
  "startsWith s p = (take (length p) s = p)"

definition slice_from :: "nat \<Rightarrow> string \<Rightarrow> string" where
  "slice_from n s = drop n s"

text \<open>
  One pass of the read loop over the decoded text of a network read:
  \<^verbatim>\<open>buffer += decoder.decode(value, ...); lines = buffer.split('\n\n'); buffer = lines.pop() || ''\<close>.
  The result is the list the \<^verbatim>\<open>for\<close> loop then walks through, and the new buffer.
\<close>

definition read_chunk :: "string \<Rightarrow> string \<Rightarrow> string list \<times> string" where
  "read_chunk buffer piece = pop_or_empty (split_nn (buffer @ piece))"

text \<open>
  The frames the loop hands on over all reads of a stream, in the order in which the
  \<^verbatim>\<open>for\<close> loops meet them, and the buffer at the moment \<^verbatim>\<open>done\<close> breaks the loop.
\<close>

fun frames_of :: "string \<Rightarrow> string list \<Rightarrow> string list \<times> string" where
  "frames_of buffer [] = ([], buffer)"
| "frames_of buffer (piece # pieces) =
     (case read_chunk buffer piece of
        (lines, buffer') \<Rightarrow>
          (case frames_of buffer' pieces of
             (more, final) \<Rightarrow> (lines @ more, final)))"

text \<open>What a sender puts on the wire: each frame followed by a blank line, then a rest.\<close>

definition wire :: "string list \<Rightarrow> string \<Rightarrow> string" where
  "wire frames rest = concat (map (\<lambda>f. f @ [nl, nl]) frames) @ rest"

text \<open>A text with two line feeds in a row somewhere.\<close>

fun has_delim :: "string \<Rightarrow> bool" where
  "has_delim (c # d # cs) = ((c = nl \<and> d = nl) \<or> has_delim (d # cs))"
| "has_delim cs = False"

text \<open>
  A frame that its blank line really ends: no blank line inside it, and no line feed at
  its end that would pair up with the terminator.
\<close>

definition complete_frame :: "string \<Rightarrow> bool" where
  "complete_frame f = (\<not> has_delim f \<and> (f = [] \<or> last f \<noteq> nl))"

section \<open>The page\<close>

text \<open>
  What the client keeps between two handlers: the session storage, the children of the
  messages container, the console, the polling closures with their timeouts, and the
  network calls made so far. A handler runs to completion, so each function below is
  one uninterrupted stretch of the code, taking the state and returning the new one.
\<close>

typedecl product

datatype node_class = Message string | Tool_use | Typing_indicator | Product_section

datatype display =
    Text string
  | Html string
  | Tool_call string string
  | Product_grid "product list"

record node =
  ident :: nat
  cls :: node_class
  rawText :: string
  shown :: display

datatype log = Info string | Error string

datatype callback = Poll nat | Resume string string

datatype request = Token_status string | Chat string "string option"

record poller =
  pollingId :: string
  conversationId :: string
  attemptCount :: nat
  awaiting :: bool

record world =
  sessionStorage :: "string \<rightharpoonup> string"
  messagesContainer :: "node list"
  fresh :: nat
  console :: "log list"
  pollers :: "poller list"
  timers :: "(nat \<times> callback) list"
  scheduled :: "(nat \<times> callback) list"
  requests :: "request list"

text \<open>
  \<^item> \<open>fresh\<close> is the identity the next created element gets; \<open>ident\<close> stands for the
    object reference the code holds in \<^verbatim>\<open>currentMessageElement\<close>.
  \<^item> \<open>pollers\<close> holds the closure of every \<^verbatim>\<open>startTokenPolling\<close> call (its
    \<^verbatim>\<open>pollingId\<close>, \<^verbatim>\<open>conversationId\<close> and \<^verbatim>\<open>attemptCount\<close>); \<open>awaiting\<close> says that its
    \<^verbatim>\<open>poll\<close> is suspended at the \<^verbatim>\<open>await\<close> of the status request.
  \<^item> \<open>timers\<close> are the pending \<^verbatim>\<open>setTimeout\<close> calls of the poller (delay in milliseconds and
    callback), \<open>scheduled\<close> all of them ever made, in order. The timeouts of
    \<^verbatim>\<open>scrollToBottom\<close> only move the view and are left out.
  \<^item> \<open>requests\<close> are the \<^verbatim>\<open>fetch\<close> calls: status checks, and the chat request that
    \<^verbatim>\<open>streamResponse\<close> opens for a message and a conversation id.
\<close>

text \<open>
  A decoded event is a record with a type and the fields the dispatcher reads, each a
  text or missing. What the code takes from its surroundings: the markup
  \<^verbatim>\<open>formatMessageContent\<close> computes for a raw text (the authentication link it remembers on
  the way is not part of the state), \<^verbatim>\<open>JSON.parse\<close> on a frame's payload (\<open>None\<close> where it
  throws), \<^verbatim>\<open>JSON.stringify(JSON.parse(s), null, 2)\<close> on tool arguments (\<open>None\<close> where the
  parse throws), \<^verbatim>\<open>JSON.parse\<close> on the content of a stored message (\<open>None\<close> where it
  throws or the value cannot be iterated, else its blocks: a text block, a block of
  another type, or \<^verbatim>\<open>null\<close>), the text a browser reports as \<^verbatim>\<open>textContent\<close> for a markup,
  and the configured welcome message.
\<close>

record event_data =
  etype :: string
  conversation_id :: "string option"
  chunk :: "string option"
  error :: "string option"
  products :: "product list option"
  tool_use_message :: "string option"

datatype block = Text_block string | Other_block | Null_block

record env =
  formatted :: "string \<Rightarrow> string"
  parse_event :: "string \<Rightarrow> event_data option"
  pretty_args :: "string \<Rightarrow> string option"
  parse_content :: "string \<Rightarrow> block list option"
  text_of_html :: "string \<Rightarrow> string"
  welcomeMessage :: "string option"

text \<open>JavaScript truthiness of a value that is a string, \<^verbatim>\<open>null\<close> or \<^verbatim>\<open>undefined\<close>.\<close>

fun truthy :: "string option \<Rightarrow> bool" where
  "truthy None = False"
| "truthy (Some s) = (s \<noteq> [])"

definition log_info :: "string \<Rightarrow> world \<Rightarrow> world" where
  "log_info m w = w\<lparr>console := console w @ [Info m]\<rparr>"

definition log_error :: "string \<Rightarrow> world \<Rightarrow> world" where
  "log_error m w = w\<lparr>console := console w @ [Error m]\<rparr>"

definition setItem :: "string \<Rightarrow> string \<Rightarrow> world \<Rightarrow> world" where
  "setItem k v w = w\<lparr>sessionStorage := (sessionStorage w)(k \<mapsto> v)\<rparr>"

definition removeItem :: "string \<Rightarrow> world \<Rightarrow> world" where
  "removeItem k w = w\<lparr>sessionStorage := (sessionStorage w)(k := None)\<rparr>"

definition appendChild :: "node_class \<Rightarrow> string \<Rightarrow> display \<Rightarrow> world \<Rightarrow> world" where
  "appendChild c raw d w =
     w\<lparr>messagesContainer :=
          messagesContainer w @ [\<lparr>ident = fresh w, cls = c, rawText = raw, shown = d\<rparr>],
       fresh := Suc (fresh w)\<rparr>"

text \<open>\<^verbatim>\<open>querySelector\<close> takes the first match; \<^verbatim>\<open>remove\<close> takes it out.\<close>

fun remove_first :: "(node \<Rightarrow> bool) \<Rightarrow> node list \<Rightarrow> node list" where
  "remove_first P [] = []"
| "remove_first P (n # ns) = (if P n then ns else n # remove_first P ns)"

definition update_node :: "nat \<Rightarrow> (node \<Rightarrow> node) \<Rightarrow> world \<Rightarrow> world" where
  "update_node i f w =
     w\<lparr>messagesContainer := map (\<lambda>n. if ident n = i then f n else n) (messagesContainer w)\<rparr>"

definition showTypingIndicator :: "world \<Rightarrow> world" where
  "showTypingIndicator w = appendChild Typing_indicator [] (Html ''<span></span><span></span><span></span>'') w"

definition removeTypingIndicator :: "world \<Rightarrow> world" where
  "removeTypingIndicator w =
     w\<lparr>messagesContainer := remove_first (\<lambda>n. cls n = Typing_indicator) (messagesContainer w)\<rparr>"

text \<open>
  \<^verbatim>\<open>formatMessageContent(element)\<close>: nothing for an empty raw text, else the markup replaces
  what the element shows.
\<close>

definition formatMessageContent :: "env \<Rightarrow> nat \<Rightarrow> world \<Rightarrow> world" where
  "formatMessageContent E i w =
     update_node i (\<lambda>n. if rawText n = [] then n else n\<lparr>shown := Html (formatted E (rawText n))\<rparr>) w"

text \<open>\<^verbatim>\<open>Message.add(text, sender, messagesContainer)\<close>.\<close>

definition Message_add :: "env \<Rightarrow> string \<Rightarrow> string \<Rightarrow> world \<Rightarrow> world" where
  "Message_add E text sender w =
     (if sender = ''assistant''
      then appendChild (Message sender) text
             (if text = [] then Text [] else Html (formatted E text)) w
      else appendChild (Message sender) [] (Text text) w)"


section \<open>Tool-use messages\<close>

text \<open>
  \<^verbatim>\<open>toolMessage.match(/Calling tool: (\w+) with arguments: (.+)/)\<close>. The pattern is not
  anchored, so the leftmost position where it matches wins. At a position, \<^verbatim>\<open>(\w+)\<close> takes
  the longest run of word characters and cannot give any back, since a blank must
  follow; \<^verbatim>\<open>(.+)\<close> takes everything up to the next line terminator and must not be empty.
\<close>

definition word_char :: "char \<Rightarrow> bool" where
  "word_char c =
     (let n = (of_char c :: nat)
      in (48 \<le> n \<and> n \<le> 57) \<or> (65 \<le> n \<and> n \<le> 90) \<or> n = 95 \<or> (97 \<le> n \<and> n \<le> 122))"

definition line_terminator :: "char \<Rightarrow> bool" where
  "line_terminator c = (c = nl \<or> c = cr)"

definition strip_prefix :: "string \<Rightarrow> string \<Rightarrow> string option" where
  "strip_prefix p s = (if startsWith s p then Some (drop (length p) s) else None)"

definition match_here :: "string \<Rightarrow> (string \<times> string) option" where
  "match_here s =
     (case strip_prefix ''Calling tool: '' s of
        None \<Rightarrow> None
      | Some r1 \<Rightarrow>
          (let toolName = takeWhile word_char r1
           in if toolName = [] then None
              else (case strip_prefix '' with arguments: '' (dropWhile word_char r1) of
                      None \<Rightarrow> None
                    | Some r2 \<Rightarrow>
                        (let argsString = takeWhile (\<lambda>c. \<not> line_terminator c) r2
                         in if argsString = [] then None else Some (toolName, argsString)))))"

fun tool_match :: "string \<Rightarrow> (string \<times> string) option" where
  "tool_match [] = None"
| "tool_match (c # cs) =
     (case match_here (c # cs) of
        Some r \<Rightarrow> Some r
      | None \<Rightarrow> tool_match cs)"

text \<open>
  \<^verbatim>\<open>Message.addToolUse(toolMessage, messagesContainer)\<close>: one new element either way, with
  the whole message as its text when the pattern does not match, else with the tool name
  in its header and the arguments, pretty-printed when they are JSON, below it.
\<close>

definition addToolUse :: "env \<Rightarrow> string \<Rightarrow> world \<Rightarrow> world" where
  "addToolUse E toolMessage w =
     (case tool_match toolMessage of
        None \<Rightarrow> appendChild Tool_use [] (Text toolMessage) w
      | Some (toolName, argsString) \<Rightarrow>
          appendChild Tool_use []
            (Tool_call toolName
               (case pretty_args E argsString of
                  Some p \<Rightarrow> p
                | None \<Rightarrow> argsString)) w)"

text \<open>
  \<^verbatim>\<open>UI.displayProductResults(products)\<close>: a product section with one card for each product;
  without products the grid is empty and says so.
\<close>

definition displayProductResults :: "product list option \<Rightarrow> world \<Rightarrow> world" where
  "displayProductResults ps w =
     appendChild Product_section [] (Product_grid (case ps of None \<Rightarrow> [] | Some l \<Rightarrow> l)) w"

section \<open>The event dispatcher\<close>

text \<open>
  \<^verbatim>\<open>API.handleStreamEvent(data, currentMessageElement, messagesContainer, userMessage,
  updateCurrentElement)\<close>. The result carries the element that is current afterwards: the
  callback of \<^verbatim>\<open>new_message\<close> rebinds it, every other kind leaves it. A missing
  \<^verbatim>\<open>chunk\<close> field is appended as the text \<^verbatim>\<open>undefined\<close>, as string concatenation does.
  \<^verbatim>\<open>userMessage\<close> is a string, so \<^verbatim>\<open>userMessage || ''\<close> is \<^verbatim>\<open>userMessage\<close>.
\<close>

definition failure_message :: string where
  "failure_message = ''Sorry, I couldn't process your request. Please try again later.''"

definition busy_message :: string where
  "busy_message = ''Sorry, our servers are currently busy. Please try again later.''"

definition handleStreamEvent :: "env \<Rightarrow> event_data \<Rightarrow> nat \<Rightarrow> string \<Rightarrow> world \<Rightarrow> world \<times> nat" where
  "handleStreamEvent E data currentMessageElement userMessage w =
     (if etype data = ''id'' then
        (case conversation_id data of
           None \<Rightarrow> (w, currentMessageElement)
         | Some c \<Rightarrow>
             (if c = [] then w else setItem ''shopAiConversationId'' c w, currentMessageElement))
      else if etype data = ''chunk'' then
        (update_node currentMessageElement
           (\<lambda>n. n\<lparr>rawText := rawText n @ (case chunk data of None \<Rightarrow> ''undefined'' | Some t \<Rightarrow> t),
                  shown := Text (rawText n @ (case chunk data of None \<Rightarrow> ''undefined'' | Some t \<Rightarrow> t))\<rparr>)
           (removeTypingIndicator w),
         currentMessageElement)
      else if etype data = ''message_complete'' then
        (formatMessageContent E currentMessageElement (removeTypingIndicator w), currentMessageElement)
      else if etype data = ''end_turn'' then
        (removeTypingIndicator w, currentMessageElement)
      else if etype data = ''error'' then
        (update_node currentMessageElement (\<lambda>n. n\<lparr>shown := Text failure_message\<rparr>)
           (removeTypingIndicator (log_error ''Stream error:'' w)),
         currentMessageElement)
      else if etype data = ''rate_limit_exceeded'' then
        (update_node currentMessageElement (\<lambda>n. n\<lparr>shown := Text busy_message\<rparr>)
           (removeTypingIndicator (log_error ''Rate limit exceeded:'' w)),
         currentMessageElement)
      else if etype data = ''auth_required'' then
        (setItem ''shopAiLastMessage'' userMessage w, currentMessageElement)
      else if etype data = ''product_results'' then
        (displayProductResults (products data) w, currentMessageElement)
      else if etype data = ''tool_use'' then
        (if truthy (tool_use_message data)
         then (case tool_use_message data of
                 None \<Rightarrow> w
               | Some m \<Rightarrow> addToolUse E m w)
         else w,
         currentMessageElement)
      else if etype data = ''new_message'' then
        (appendChild (Message ''assistant'') [] (Text [])
           (showTypingIndicator (formatMessageContent E currentMessageElement w)),
         fresh (showTypingIndicator (formatMessageContent E currentMessageElement w)))
      else if etype data = ''content_block_complete'' then
        (showTypingIndicator w, currentMessageElement)
      else (w, currentMessageElement))"


section \<open>The stream-read loop\<close>

text \<open>
  The body of \<^verbatim>\<open>for (const line of lines)\<close>: a line without the prefix is passed over; a
  payload that \<^verbatim>\<open>JSON.parse\<close> rejects lands in the \<^verbatim>\<open>catch\<close>, which logs it.
\<close>

definition process_line :: "env \<Rightarrow> string \<Rightarrow> string \<Rightarrow> world \<times> nat \<Rightarrow> world \<times> nat" where
  "process_line E userMessage line st =
     (if startsWith line ''data: '' then
        (case parse_event E (slice_from 6 line) of
           None \<Rightarrow> (log_error ''Error parsing event data:'' (fst st), snd st)
         | Some data \<Rightarrow> handleStreamEvent E data (snd st) userMessage (fst st))
      else st)"

fun process_lines :: "env \<Rightarrow> string \<Rightarrow> string list \<Rightarrow> world \<times> nat \<Rightarrow> world \<times> nat" where
  "process_lines E userMessage [] st = st"
| "process_lines E userMessage (line # lines) st =
     process_lines E userMessage lines (process_line E userMessage line st)"

text \<open>
  The \<^verbatim>\<open>while (true)\<close> loop over the reads of one stream, each read already decoded to
  text: the state is the page, the current element and the buffer. When the reads are
  used up (\<^verbatim>\<open>done\<close>), the loop breaks and the buffer is dropped with the call.
\<close>

fun read_loop :: "env \<Rightarrow> string \<Rightarrow> string list \<Rightarrow> (world \<times> nat) \<times> string \<Rightarrow> (world \<times> nat) \<times> string" where
  "read_loop E userMessage [] st = st"
| "read_loop E userMessage (piece # pieces) st =
     (case read_chunk (snd st) piece of
        (lines, buffer) \<Rightarrow>
          read_loop E userMessage pieces (process_lines E userMessage lines (fst st), buffer))"

text \<open>
  What the network does to a chat request: \<^verbatim>\<open>fetch\<close> rejects, or the body delivers its
  reads and ends, or it delivers some reads and then a read rejects.
\<close>

datatype transport = Fetch_rejected | Delivered "string list" | Broken "string list"

definition stream_failed :: "env \<Rightarrow> world \<Rightarrow> world" where
  "stream_failed E w =
     Message_add E failure_message ''assistant''
       (removeTypingIndicator (log_error ''Error in streaming:'' w))"

definition open_message :: "world \<Rightarrow> world \<times> nat" where
  "open_message w = (appendChild (Message ''assistant'') [] (Text []) w, fresh w)"

text \<open>
  \<^verbatim>\<open>API.streamResponse(userMessage, conversationId, messagesContainer)\<close>: the call itself
  runs up to the \<^verbatim>\<open>await\<close> of the chat request (\<open>begin_stream\<close>); \<open>streamResponse\<close> is the
  whole of it, from the call to the end of the stream, with no other handler running in
  between.
\<close>

definition begin_stream :: "string \<Rightarrow> string option \<Rightarrow> world \<Rightarrow> world" where
  "begin_stream userMessage conv w = w\<lparr>requests := requests w @ [Chat userMessage conv]\<rparr>"

definition streamResponse :: "env \<Rightarrow> string \<Rightarrow> string option \<Rightarrow> transport \<Rightarrow> world \<Rightarrow> world" where
  "streamResponse E userMessage conv t w =
     (case t of
        Fetch_rejected \<Rightarrow>
          stream_failed E (begin_stream userMessage conv w)
      | Delivered pieces \<Rightarrow>
          fst (fst (read_loop E userMessage pieces
                 (open_message (begin_stream userMessage conv w), [])))
      | Broken pieces \<Rightarrow>
          stream_failed E
            (fst (fst (read_loop E userMessage pieces
               (open_message (begin_stream userMessage conv w), [])))))"

section \<open>Conversation history\<close>





















section \<open>The token poller\<close>

text \<open>\<^verbatim>\<open>'polling_' + Date.now()\<close> appends the decimal digits of the clock's milliseconds.\<close>

definition digit :: "nat \<Rightarrow> char" where
  "digit n = ''0123456789'' ! n"

fun dec :: "nat \<Rightarrow> string" where
  "dec n = (if n < 10 then [digit n] else dec (n div 10) @ [digit (n mod 10)])"

declare dec.simps [simp del]

definition maxAttempts :: nat where
  "maxAttempts = 30"

definition setTimeout :: "callback \<Rightarrow> nat \<Rightarrow> world \<Rightarrow> world" where
  "setTimeout cb delay w =
     w\<lparr>timers := timers w @ [(delay, cb)], scheduled := scheduled w @ [(delay, cb)]\<rparr>"

text \<open>
  \<^verbatim>\<open>Auth.startTokenPolling(conversationId, messagesContainer)\<close> called when the clock shows
  \<open>now\<close>: the new closure gets the next free place in \<open>pollers\<close>, and its first tick
  is set two seconds ahead.
\<close>

definition startTokenPolling :: "string option \<Rightarrow> nat \<Rightarrow> world \<Rightarrow> world" where
  "startTokenPolling conv now w =
     (case conv of
        None \<Rightarrow> w
      | Some c \<Rightarrow>
          (if c = [] then w
           else setTimeout (Poll (length (pollers w))) 2000
                  ((setItem ''shopAiTokenPollingId'' (''polling_'' @ dec now)
                      (log_info ''Starting token polling for conversation:'' w))
                   \<lparr>pollers := pollers w @
                      [\<lparr>pollingId = ''polling_'' @ dec now, conversationId = c,
                        attemptCount = 0, awaiting = False\<rparr>]\<rparr>)))"

text \<open>
  \<^verbatim>\<open>poll\<close> of the closure \<open>h\<close>, from its start to the \<^verbatim>\<open>await\<close> of the status request:
  the fence, the attempt bound, the count, the request.
\<close>

definition poll :: "nat \<Rightarrow> world \<Rightarrow> world" where
  "poll h w =
     (if h < length (pollers w) then
        (if sessionStorage w ''shopAiTokenPollingId'' \<noteq> Some (pollingId (pollers w ! h)) then
           log_info ''Another polling session has started, stopping this one'' w
         else if attemptCount (pollers w ! h) \<ge> maxAttempts then
           log_info ''Max polling attempts reached, stopping'' w
         else
           w\<lparr>pollers := (pollers w)[h := (pollers w ! h)
                            \<lparr>attemptCount := Suc (attemptCount (pollers w ! h)), awaiting := True\<rparr>],
             requests := requests w @ [Token_status (conversationId (pollers w ! h))]\<rparr>)
      else w)"

text \<open>
  What comes back for a status request: the request rejects, or the status is not ok, or
  the body is not JSON, or it is a record with or without a \<^verbatim>\<open>status\<close> text. The two
  \<^verbatim>\<open>await\<close>s of the code (response, then body) are taken as one.
\<close>

datatype status_response =
    Status_rejected
  | Status_not_ok nat
  | Status_bad_body
  | Status "string option"

text \<open>The rest of \<^verbatim>\<open>poll\<close>, from the answer on.\<close>

definition poll_answer :: "nat \<Rightarrow> status_response \<Rightarrow> world \<Rightarrow> world" where
  "poll_answer h resp w =
     (if h < length (pollers w) \<and> awaiting (pollers w ! h) then
        (let p = pollers w ! h;
             w0 = w\<lparr>pollers := (pollers w)[h := p\<lparr>awaiting := False\<rparr>]\<rparr>
         in case resp of
              Status st \<Rightarrow>
                (if st = Some ''authorized'' then
                   (let w1 = log_info ''Token available, resuming conversation'' w0
                    in removeItem ''shopAiTokenPollingId''
                         (case sessionStorage w1 ''shopAiLastMessage'' of
                            None \<Rightarrow> w1
                          | Some m \<Rightarrow>
                              (if m = [] then w1
                               else setTimeout (Resume m (conversationId p)) 500
                                      (removeItem ''shopAiLastMessage'' w1))))
                 else setTimeout (Poll h) 10000
                        (log_info ''Token not available yet, polling again in 10s'' w0))
            | _ \<Rightarrow> setTimeout (Poll h) 10000 (log_error ''Error polling for token status:'' w0))
      else w)"

text \<open>The callback that replays the pending message, half a second after the answer.\<close>

definition resume :: "env \<Rightarrow> string \<Rightarrow> string \<Rightarrow> world \<Rightarrow> world" where
  "resume E message conv w =
     showTypingIndicator
       (begin_stream message (Some conv)
          (Message_add E ''Authorization successful! I'm now continuing with your request.''
             ''assistant'' w))"

text \<open>
  \<^verbatim>\<open>Auth.openAuthPopup(authUrl)\<close>, as the click handler of an authentication link calls
  it, when the clock shows \<open>now\<close>. The popup window itself is not part of the state.
\<close>

definition openAuthPopup :: "env \<Rightarrow> nat \<Rightarrow> world \<Rightarrow> world" where
  "openAuthPopup E now w =
     (if truthy (sessionStorage w ''shopAiConversationId'')
      then startTokenPolling (sessionStorage w ''shopAiConversationId'') now
             (Message_add E
                ''Authentication in progress. Please complete the process in the popup window.''
                ''assistant'' w)
      else w)"

text \<open>
  The handlers the event loop can run for the poller, one at a time and each to its end:
  a click that opens the popup, a start of polling, a pending timeout that fires (the
  \<open>k\<close>-th pending one), an answer to the status request of a closure.
\<close>

datatype event =
    Click nat
  | Start "string option" nat
  | Fire nat
  | Answer nat status_response

fun step :: "env \<Rightarrow> event \<Rightarrow> world \<Rightarrow> world" where
  "step E (Click now) w = openAuthPopup E now w"
| "step E (Start conv now) w = startTokenPolling conv now w"
| "step E (Fire k) w =
     (if k < length (timers w) then
        (case snd (timers w ! k) of
           Poll h \<Rightarrow> poll h (w\<lparr>timers := take k (timers w) @ drop (Suc k) (timers w)\<rparr>)
         | Resume m c \<Rightarrow> resume E m c (w\<lparr>timers := take k (timers w) @ drop (Suc k) (timers w)\<rparr>))
      else w)"
| "step E (Answer h resp) w = poll_answer h resp w"

fun run :: "env \<Rightarrow> event list \<Rightarrow> world \<Rightarrow> world" where
  "run E [] w = w"
| "run E (e # es) w = run E es (step E e w)"

section \<open>Authentication tokens\<close>

text \<open>
  \<^verbatim>\<open>generateToken\<close> and \<^verbatim>\<open>parseToken\<close> of the chat-user route. JSON values are a datatype;
  numbers are integers, which is all a millisecond clock produces. The platform's
  functions are taken as they come: \<^verbatim>\<open>JSON.stringify\<close>, \<^verbatim>\<open>JSON.parse\<close> (\<open>None\<close> where it
  throws), \<^verbatim>\<open>Buffer.from(s).toString('base64')\<close>,
  \<^verbatim>\<open>Buffer.from(t, 'base64').toString('utf8')\<close>, and the number a value that is not a
  number is converted to in a comparison (\<open>None\<close> for \<^verbatim>\<open>NaN\<close>).
\<close>

datatype json =
    JNull
  | JBool bool
  | JNum int
  | JStr string
  | JArr "json list"
  | JObj "(string \<times> json) list"

record builtins =
  JSON_stringify :: "json \<Rightarrow> string"
  JSON_parse :: "string \<Rightarrow> json option"
  to_base64 :: "string \<Rightarrow> string"
  from_base64 :: "string \<Rightarrow> string"
  to_number :: "json \<Rightarrow> int option"

text \<open>
  Reading a property: of \<^verbatim>\<open>null\<close> it throws, of an object it is the member or
  \<^verbatim>\<open>undefined\<close>, of anything else JSON can produce the name \<^verbatim>\<open>exp\<close> is \<^verbatim>\<open>undefined\<close>.
\<close>

datatype lookup = Throws | Undefined | Value json

fun property :: "json \<Rightarrow> string \<Rightarrow> lookup" where
  "property JNull k = Throws"
| "property (JObj kvs) k = (case map_of kvs k of None \<Rightarrow> Undefined | Some v \<Rightarrow> Value v)"
| "property j k = Undefined"

text \<open>\<^verbatim>\<open>payload.exp < Date.now()\<close>: a comparison with \<^verbatim>\<open>NaN\<close> is false.\<close>

fun js_less :: "builtins \<Rightarrow> lookup \<Rightarrow> int \<Rightarrow> bool" where
  "js_less B (Value (JNum e)) now = (e < now)"
| "js_less B (Value j) now = (case to_number B j of None \<Rightarrow> False | Some e \<Rightarrow> e < now)"
| "js_less B l now = False"

definition week :: int where
  "week = 7 * 24 * 60 * 60 * 1000"

definition token_payload :: "string \<Rightarrow> int \<Rightarrow> json" where
  "token_payload userId now = JObj [(''userId'', JStr userId), (''exp'', JNum (now + week))]"

definition generateToken :: "builtins \<Rightarrow> string \<Rightarrow> int \<Rightarrow> string" where
  "generateToken B userId now = to_base64 B (JSON_stringify B (token_payload userId now))"

definition parseToken :: "builtins \<Rightarrow> string \<Rightarrow> int \<Rightarrow> json option" where
  "parseToken B token now =
     (case JSON_parse B (from_base64 B token) of
        None \<Rightarrow> None
      | Some payload \<Rightarrow>
          (case property payload ''exp'' of
             Throws \<Rightarrow> None
           | l \<Rightarrow> if js_less B l now then None else Some payload))"

section \<open>Observations and sample surroundings\<close>

text \<open>The state apart from the console.\<close>

definition hush :: "world \<Rightarrow> world" where
  "hush w = w\<lparr>console := []\<rparr>"

text \<open>
  A page is well formed when its elements have distinct identities, all handed out
  already. The active frame of a stream is the assistant message its current element
  denotes; \<open>frames_at\<close> lists the elements of the page that qualify.
\<close>

definition well_formed :: "world \<Rightarrow> bool" where
  "well_formed w =
     (distinct (map ident (messagesContainer w)) \<and>
      list_all (\<lambda>n. ident n < fresh w) (messagesContainer w))"

definition frames_at :: "nat \<Rightarrow> world \<Rightarrow> node list" where
  "frames_at i w =
     filter (\<lambda>n. ident n = i \<and> cls n = Message ''assistant'') (messagesContainer w)"

definition one_active :: "nat \<Rightarrow> world \<Rightarrow> bool" where
  "one_active i w = (length (frames_at i w) = 1)"

definition streaming :: "nat \<Rightarrow> world \<Rightarrow> bool" where
  "streaming i w = (well_formed w \<and> one_active i w)"

text \<open>The chat requests among the network calls.\<close>

fun is_chat :: "request \<Rightarrow> bool" where
  "is_chat (Chat m c) = True"
| "is_chat (Token_status c) = False"

fun is_resume :: "nat \<times> callback \<Rightarrow> bool" where
  "is_resume (d, Resume m c) = True"
| "is_resume (d, Poll h) = False"

text \<open>
  For runs of the poller: the answer that ends the waiting, the console line of any other
  answer, the events of a closure that ticks alone (its timeout fires, its request is
  answered, once for each answer), the events that start a session when the clock shows
  a given value, a closure that is current and waits for its next tick (with its
  identifier, its conversation, its count, the other pending timeouts and its delay), and
  a state in which nothing waits to be replayed.
\<close>

definition authorized :: "status_response \<Rightarrow> bool" where
  "authorized r = (r = Status (Some ''authorized''))"

fun answer_log :: "status_response \<Rightarrow> log" where
  "answer_log (Status st) = Info ''Token not available yet, polling again in 10s''"
| "answer_log r = Error ''Error polling for token status:''"

fun ticks :: "nat \<Rightarrow> nat \<Rightarrow> status_response list \<Rightarrow> event list" where
  "ticks k h [] = []"
| "ticks k h (r # rs) = Fire k # Answer h r # ticks k h rs"

fun starts_at :: "nat \<Rightarrow> event \<Rightarrow> bool" where
  "starts_at t (Click now) = (now = t)"
| "starts_at t (Start conv now) = (now = t)"
| "starts_at t e = False"

definition polling :: "nat \<Rightarrow> string \<Rightarrow> string \<Rightarrow> nat \<Rightarrow> (nat \<times> callback) list \<Rightarrow> nat \<Rightarrow> world \<Rightarrow> bool" where
  "polling h pid c n ts d w =
     (h < length (pollers w) \<and>
      pollers w ! h = \<lparr>pollingId = pid, conversationId = c, attemptCount = n, awaiting = False\<rparr> \<and>
      sessionStorage w ''shopAiTokenPollingId'' = Some pid \<and>
      timers w = ts @ [(d, Poll h)])"

definition quiescent :: "world \<Rightarrow> bool" where
  "quiescent w =
     (\<not> truthy (sessionStorage w ''shopAiLastMessage'') \<and>
      list_all (\<lambda>t. \<not> is_resume t) (timers w))"






text \<open>
  Sample surroundings for concrete runs: an empty page, and an environment whose parser
  knows the payloads of a few events.
\<close>

definition empty_world :: world where
  "empty_world =
     \<lparr>sessionStorage = Map.empty, messagesContainer = [], fresh = 0, console = [],
      pollers = [], timers = [], scheduled = [], requests = []\<rparr>"

definition plain :: "string \<Rightarrow> event_data" where
  "plain t =
     \<lparr>etype = t, conversation_id = None, chunk = None, error = None, products = None,
      tool_use_message = None\<rparr>"

definition dq :: char where
  "dq = CHR 0x22"

definition quoted :: "string \<Rightarrow> string" where
  "quoted s = dq # s @ [dq]"

definition payload :: "string \<Rightarrow> string" where
  "payload t = ''{'' @ quoted ''type'' @ '':'' @ quoted t @ ''}''"

definition payload_with :: "string \<Rightarrow> string \<Rightarrow> string \<Rightarrow> string" where
  "payload_with t k v =
     ''{'' @ quoted ''type'' @ '':'' @ quoted t @ '','' @ quoted k @ '':'' @ quoted v @ ''}''"

definition sample_parse :: "string \<Rightarrow> event_data option" where
  "sample_parse s =
     (if s = payload_with ''chunk'' ''chunk'' ''Hello'' then Some ((plain ''chunk'')\<lparr>chunk := Some ''Hello''\<rparr>)
      else if s = payload ''new_message'' then Some (plain ''new_message'')
      else if s = payload ''message_complete'' then Some (plain ''message_complete'')
      else if s = payload ''auth_required'' then Some (plain ''auth_required'')
      else if s = payload ''end_turn'' then Some (plain ''end_turn'')
      else None)"

definition sample_env :: env where
  "sample_env =
     \<lparr>formatted = (\<lambda>s. ''<p>'' @ s @ ''</p>''),
      parse_event = sample_parse,
      pretty_args = (\<lambda>s. if s = ''{}'' then Some ''{}'' else None),
      parse_content = (\<lambda>s. None),
      text_of_html = (\<lambda>h. h),
      welcomeMessage = None\<rparr>"

definition sample_page :: world where
  "sample_page = appendChild (Message ''assistant'') ''Hi'' (Text ''Hi'') empty_world"

definition sample_session :: world where
  "sample_session = setItem ''shopAiConversationId'' ''c1'' sample_page"

definition sample_args :: string where
  "sample_args = ''{'' @ quoted ''q'' @ '':'' @ quoted ''shoes'' @ ''}''"

definition sample_tool_use :: event_data where
  "sample_tool_use =
     (plain ''tool_use'')
       \<lparr>tool_use_message := Some (''Calling tool: '' @ ''search_products'' @ '' with arguments: '' @ sample_args)\<rparr>"




definition has_conversation :: "world \<Rightarrow> bool" where
  "has_conversation w = (sessionStorage w ''shopAiConversationId'' \<noteq> None)"

text \<open>
  Sample platform functions for concrete tokens: base64 as the standard has it, and JSON
  for records of the shape of a token payload.
\<close>

definition b64_chars :: string where
  "b64_chars = ''ABCDEFGHIJKLMNOPQRSTUVWXYZabcdefghijklmnopqrstuvwxyz0123456789+/''"

definition b64 :: "nat \<Rightarrow> char" where
  "b64 n = b64_chars ! n"

fun bits_of_char :: "char \<Rightarrow> bool list" where
  "bits_of_char (Char b0 b1 b2 b3 b4 b5 b6 b7) = [b7, b6, b5, b4, b3, b2, b1, b0]"

definition nat_of_bits :: "bool list \<Rightarrow> nat" where
  "nat_of_bits bs = foldl (\<lambda>a b. 2 * a + (if b then 1 else 0)) 0 bs"

fun sextet_chars :: "bool list \<Rightarrow> string" where
  "sextet_chars (a # b # c # d # e # f # bs) =
     b64 (nat_of_bits [a, b, c, d, e, f]) # sextet_chars bs"
| "sextet_chars [a, b, c, d] = [b64 (nat_of_bits [a, b, c, d, False, False])]"
| "sextet_chars [a, b] = [b64 (nat_of_bits [a, b, False, False, False, False])]"
| "sextet_chars bs = []"

definition encode_base64 :: "string \<Rightarrow> string" where
  "encode_base64 s =
     sextet_chars (concat (map bits_of_char s)) @
     (if length s mod 3 = 1 then ''=='' else if length s mod 3 = 2 then ''='' else [])"

fun index_of :: "char \<Rightarrow> string \<Rightarrow> nat option" where
  "index_of c [] = None"
| "index_of c (x # xs) = (if c = x then Some 0 else map_option Suc (index_of c xs))"

fun sextets :: "string \<Rightarrow> nat list" where
  "sextets [] = []"
| "sextets (c # s) = (case index_of c b64_chars of None \<Rightarrow> sextets s | Some n \<Rightarrow> n # sextets s)"

definition bits_of_sextet :: "nat \<Rightarrow> bool list" where
  "bits_of_sextet n =
     [n div 32 mod 2 = 1, n div 16 mod 2 = 1, n div 8 mod 2 = 1, n div 4 mod 2 = 1,
      n div 2 mod 2 = 1, n mod 2 = 1]"

fun chars_of_bits :: "bool list \<Rightarrow> string" where
  "chars_of_bits (b7 # b6 # b5 # b4 # b3 # b2 # b1 # b0 # bs) =
     Char b0 b1 b2 b3 b4 b5 b6 b7 # chars_of_bits bs"
| "chars_of_bits bs = []"

definition decode_base64 :: "string \<Rightarrow> string" where
  "decode_base64 s = chars_of_bits (concat (map bits_of_sextet (sextets s)))"

definition is_digit :: "char \<Rightarrow> bool" where
  "is_digit c = (48 \<le> (of_char c :: nat) \<and> (of_char c :: nat) \<le> 57)"

definition undec :: "string \<Rightarrow> nat" where
  "undec ds = foldl (\<lambda>a c. a * 10 + ((of_char c :: nat) - 48)) 0 ds"

fun stringify_value :: "json \<Rightarrow> string" where
  "stringify_value (JStr s) = quoted s"
| "stringify_value (JNum n) = (if n < 0 then ''-'' @ dec (nat (- n)) else dec (nat n))"
| "stringify_value (JBool b) = (if b then ''true'' else ''false'')"
| "stringify_value j = ''null''"

fun stringify_members :: "(string \<times> json) list \<Rightarrow> string" where
  "stringify_members [] = []"
| "stringify_members [(k, v)] = quoted k @ '':'' @ stringify_value v"
| "stringify_members ((k, v) # kvs) = quoted k @ '':'' @ stringify_value v @ '','' @ stringify_members kvs"

fun sample_stringify :: "json \<Rightarrow> string" where
  "sample_stringify (JObj kvs) = ''{'' @ stringify_members kvs @ ''}''"
| "sample_stringify j = stringify_value j"

definition sample_parse_json :: "string \<Rightarrow> json option" where
  "sample_parse_json s =
     (case strip_prefix (''{'' @ quoted ''userId'' @ '':'' @ [dq]) s of
        None \<Rightarrow> None
      | Some r \<Rightarrow>
          (case strip_prefix ([dq] @ '','' @ quoted ''exp'' @ '':'') (dropWhile (\<lambda>c. c \<noteq> dq) r) of
             None \<Rightarrow> None
           | Some e \<Rightarrow>
               (if takeWhile is_digit e \<noteq> [] \<and> dropWhile is_digit e = ''}''
                then Some (JObj [(''userId'', JStr (takeWhile (\<lambda>c. c \<noteq> dq) r)),
                                 (''exp'', JNum (int (undec (takeWhile is_digit e))))])
                else None)))"

definition sample_builtins :: builtins where
  "sample_builtins =
     \<lparr>JSON_stringify = sample_stringify, JSON_parse = sample_parse_json,
      to_base64 = encode_base64, from_base64 = decode_base64, to_number = (\<lambda>j. None)\<rparr>"


definition sample_pending :: world where
  "sample_pending = setItem ''shopAiLastMessage'' ''find my order'' sample_session"

definition sample_started :: world where
  "sample_started = startTokenPolling (Some ''c1'') 1000 sample_pending"

definition sample_overlap :: world where
  "sample_overlap = run sample_env [Fire 0, Start (Some ''c1'') 3050] sample_started"

text \<open>A stream of two frames that arrives in two reads, cut inside the first frame.\<close>

definition sample_frames :: "string list" where
  "sample_frames =
     [''data: '' @ payload_with ''chunk'' ''chunk'' ''Hello'', ''data: '' @ payload ''end_turn'']"

definition sample_reads :: "string list" where
  "sample_reads =
     [''data: {'' @ quoted ''type'' @ '':'' @ quoted ''chunk'' @ '','' @ quoted ''chunk'' @ '':''
        @ [dq] @ ''Hel'',
      ''lo'' @ [dq] @ ''}'' @ [nl, nl] @ ''data: '' @ payload ''end_turn'' @ [nl, nl]]"

section \<open>The splitter\<close>

lemma split_nn_not_Nil: "split_nn s \<noteq> []"
  by (induction s rule: split_nn.induct) (auto split: list.splits)

lemma split_nn_no_delim: "\<not> has_delim s \<Longrightarrow> split_nn s = [s]"
  by (induction s rule: split_nn.induct) auto

lemma split_nn_single: "split_nn s = [x] \<Longrightarrow> x = s"
  by (induction s arbitrary: x rule: split_nn.induct)
     (auto split: if_splits list.splits simp: split_nn_not_Nil)

lemma split_nn_segments: "x \<in> set (split_nn s) \<Longrightarrow> \<not> has_delim x"
proof (induction s arbitrary: x rule: split_nn.induct)
  case (1 c d cs)
  show ?case
  proof (cases "c = nl \<and> d = nl")
    case True
    with 1 show ?thesis by auto
  next
    case False
    obtain y ys where sp: "split_nn (d # cs) = y # ys"
      using split_nn_not_Nil [of "d # cs"] by (cases "split_nn (d # cs)") auto
    have y: "\<not> has_delim y" and rest: "\<forall>z\<in>set ys. \<not> has_delim z"
      using 1 False sp by auto
    have "\<not> has_delim (c # y)"
    proof (cases y)
      case Nil
      then show ?thesis by simp
    next
      case (Cons e es)
      have "e = d"
      proof (cases "cs")
        case Nil
        with sp Cons show ?thesis by simp
      next
        case (Cons f fs)
        with sp \<open>y = e # es\<close> show ?thesis
          by (auto split: if_splits list.splits)
      qed
      with Cons y False show ?thesis by auto
    qed
    with 1(3) False sp rest show ?thesis by auto
  qed
qed auto


lemma split_nn_step:
  "\<not> (c = nl \<and> d = nl) \<Longrightarrow> split_nn (d # cs) = y # ys \<Longrightarrow> split_nn (c # d # cs) = (c # y) # ys"
  by auto

lemma split_nn_append:
  "butlast (split_nn a) @ split_nn (last (split_nn a) @ b) = split_nn (a @ b)"
proof (induction a rule: split_nn.induct)
  case (1 c d cs)
  show ?case
  proof (cases "c = nl \<and> d = nl")
    case True
    then have ih: "butlast (split_nn cs) @ split_nn (last (split_nn cs) @ b) = split_nn (cs @ b)"
      using 1(1) by simp
    have "split_nn (c # d # cs) = [] # split_nn cs"
      using True by simp
    moreover have "split_nn ((c # d # cs) @ b) = [] # split_nn (cs @ b)"
      using True by simp
    ultimately show ?thesis
      using ih by (simp add: split_nn_not_Nil)
  next
    case False
    obtain y ys where sp: "split_nn (d # cs) = y # ys"
      using split_nn_not_Nil [of "d # cs"] by (cases "split_nn (d # cs)") auto
    have ih: "butlast (y # ys) @ split_nn (last (y # ys) @ b) = split_nn (d # cs @ b)"
      using 1(2) False sp by simp
    have L: "split_nn (c # d # cs) = (c # y) # ys"
      using False sp by (rule split_nn_step)
    show ?thesis
    proof (cases ys)
      case Nil
      with sp have y: "y = d # cs" by (simp add: split_nn_single)
      have "split_nn (c # d # cs) = [c # d # cs]" using L Nil y by simp
      then show ?thesis by simp
    next
      case (Cons z zs)
      obtain u us where spb: "split_nn (d # cs @ b) = u # us"
        using split_nn_not_Nil [of "d # cs @ b"] by (cases "split_nn (d # cs @ b)") auto
      have R: "split_nn (c # d # cs @ b) = (c # u) # us"
        using False spb by (rule split_nn_step)
      from ih Cons spb have "u = y" and "us = butlast ys @ split_nn (last ys @ b)"
        by simp_all
      with L R Cons show ?thesis by simp
    qed
  qed
qed simp_all


lemma read_chunk_split:
  "read_chunk buffer piece = (butlast (split_nn (buffer @ piece)), last (split_nn (buffer @ piece)))"
  by (simp add: read_chunk_def pop_or_empty_def split_nn_not_Nil)

lemma last_split_nn_no_delim: "\<not> has_delim (last (split_nn s))"
  using split_nn_segments [of "last (split_nn s)" s] split_nn_not_Nil [of s] by simp

lemma frames_of_split:
  "\<not> has_delim buffer \<Longrightarrow>
   frames_of buffer pieces =
     (butlast (split_nn (buffer @ concat pieces)), last (split_nn (buffer @ concat pieces)))"
proof (induction pieces arbitrary: buffer)
  case Nil
  then show ?case by (simp add: split_nn_no_delim)
next
  case (Cons piece pieces)
  let ?b = "last (split_nn (buffer @ piece))"
  have nd: "\<not> has_delim ?b" by (rule last_split_nn_no_delim)
  have app: "butlast (split_nn (buffer @ piece)) @ split_nn (?b @ concat pieces)
             = split_nn (buffer @ piece @ concat pieces)"
    using split_nn_append [of "buffer @ piece" "concat pieces"] by simp
  have ne: "split_nn (?b @ concat pieces) \<noteq> []" by (rule split_nn_not_Nil)
  have "frames_of buffer (piece # pieces) =
          (butlast (split_nn (buffer @ piece)) @ butlast (split_nn (?b @ concat pieces)),
           last (split_nn (?b @ concat pieces)))"
    using Cons.IH [OF nd] by (simp add: read_chunk_split)
  also have "butlast (split_nn (buffer @ piece)) @ butlast (split_nn (?b @ concat pieces))
             = butlast (split_nn (buffer @ piece @ concat pieces))"
    using app ne by (metis butlast_append)
  also have "last (split_nn (?b @ concat pieces)) = last (split_nn (buffer @ piece @ concat pieces))"
    using app ne by (metis last_appendR)
  finally show ?case by simp
qed

lemma split_nn_frame:
  "complete_frame f \<Longrightarrow> split_nn (f @ nl # nl # rest) = f # split_nn rest"
proof (induction f rule: split_nn.induct)
  case (1 c d cs)
  then have cf: "complete_frame (d # cs)" and ncd: "\<not> (c = nl \<and> d = nl)"
    by (auto simp: complete_frame_def)
  have "split_nn (d # cs @ nl # nl # rest) = (d # cs) # split_nn rest"
    using 1(2) [OF ncd] cf by simp
  with ncd have "split_nn (c # d # cs @ nl # nl # rest) = (c # d # cs) # split_nn rest"
    by (rule split_nn_step)
  then show ?case by simp
qed (simp_all add: complete_frame_def)

lemma split_nn_wire:
  "\<forall>f\<in>set frames. complete_frame f \<Longrightarrow> split_nn (wire frames rest) = frames @ split_nn rest"
proof (induction frames)
  case Nil
  show ?case by (simp add: wire_def)
next
  case (Cons f fs)
  then have "split_nn (wire fs rest) = fs @ split_nn rest" by simp
  moreover have "wire (f # fs) rest = f @ nl # nl # wire fs rest" by (simp add: wire_def)
  ultimately show ?case using Cons.prems by (simp add: split_nn_frame)
qed

lemma frames_of_wire:
  assumes "\<forall>f\<in>set frames. complete_frame f" and "\<not> has_delim rest"
    and "concat pieces = wire frames rest"
  shows "frames_of [] pieces = (frames, rest)"
proof -
  have "split_nn (concat pieces) = frames @ [rest]"
    using assms by (simp add: split_nn_wire split_nn_no_delim)
  moreover have "frames_of [] pieces =
      (butlast (split_nn (concat pieces)), last (split_nn (concat pieces)))"
    using frames_of_split [of "[]" pieces] by simp
  ultimately show ?thesis by simp
qed

lemma process_lines_append:
  "process_lines E um (xs @ ys) st = process_lines E um ys (process_lines E um xs st)"
  by (induction xs arbitrary: st) simp_all

lemma read_loop_frames:
  "read_loop E um pieces (st, b) =
     (process_lines E um (fst (frames_of b pieces)) st, snd (frames_of b pieces))"
proof (induction pieces arbitrary: st b)
  case Nil
  show ?case by simp
next
  case (Cons piece pieces)
  obtain lines b' where rc: "read_chunk b piece = (lines, b')"
    by (cases "read_chunk b piece")
  obtain more final where fo: "frames_of b' pieces = (more, final)"
    by (cases "frames_of b' pieces")
  show ?case
    using Cons.IH [of "process_lines E um lines st" b'] rc fo
    by (simp add: process_lines_append)
qed

lemma frames_of_whole: "frames_of [] pieces = frames_of [] [concat pieces]"
  using frames_of_split [of "[]" pieces] by (simp add: read_chunk_split)

text \<open>
  C1. Split-invariance of the frame decoder. What the read loop hands on, and what it
  keeps in its buffer, depends only on the text of the stream and not on how the text is
  cut into reads. Let the text be \<open>N\<close> complete frames, each followed by its blank line,
  and then a rest without a blank line: the loop hands on exactly the \<open>N\<close> frames, in
  order; the \<^verbatim>\<open>for\<close> loops walk through them and nothing else, the buffer after the last
  read is the rest, and the whole call processes the frames and never the rest.
\<close>

theorem frame_decoder_split_invariance:
  assumes "\<forall>f\<in>set frames. complete_frame f"
    and "\<not> has_delim rest"
    and "concat pieces = wire frames rest"
  shows "frames_of [] pieces = frames_of [] [concat pieces] \<and>
         frames_of [] pieces = (frames, rest) \<and>
         read_loop E um pieces (st, []) = (process_lines E um frames st, rest) \<and>
         streamResponse E um conv (Delivered pieces) w =
           fst (process_lines E um frames (open_message (begin_stream um conv w)))"
proof -
  have f: "frames_of [] pieces = (frames, rest)"
    using assms by (rule frames_of_wire)
  have r: "\<And>s. read_loop E um pieces (s, []) = (process_lines E um frames s, rest)"
    using f by (simp add: read_loop_frames)
  show ?thesis
    using f r frames_of_whole [of pieces] by (simp add: streamResponse_def)
qed

lemma handleStreamEvent_hush:
  "hush (fst (handleStreamEvent E d cur um (hush w))) = hush (fst (handleStreamEvent E d cur um w)) \<and>
   snd (handleStreamEvent E d cur um (hush w)) = snd (handleStreamEvent E d cur um w)"
  by (simp add: handleStreamEvent_def hush_def setItem_def update_node_def removeTypingIndicator_def
      formatMessageContent_def log_error_def displayProductResults_def appendChild_def
      addToolUse_def showTypingIndicator_def split: option.splits prod.splits)

lemma process_line_hush:
  "hush (fst (process_line E um l (hush w, cur))) = hush (fst (process_line E um l (w, cur))) \<and>
   snd (process_line E um l (hush w, cur)) = snd (process_line E um l (w, cur))"
  using handleStreamEvent_hush [of E _ cur um w]
  by (simp add: process_line_def split: option.splits) (simp add: hush_def log_error_def)

lemma process_line_quiet:
  assumes "hush w1 = hush w2"
  shows "hush (fst (process_line E um l (w1, cur))) = hush (fst (process_line E um l (w2, cur))) \<and>
         snd (process_line E um l (w1, cur)) = snd (process_line E um l (w2, cur))"
  using process_line_hush [of E um l w1 cur] process_line_hush [of E um l w2 cur] assms
  by simp

lemma process_lines_quiet:
  "hush w1 = hush w2 \<Longrightarrow>
   hush (fst (process_lines E um ls (w1, cur))) = hush (fst (process_lines E um ls (w2, cur))) \<and>
   snd (process_lines E um ls (w1, cur)) = snd (process_lines E um ls (w2, cur))"
proof (induction ls arbitrary: w1 w2 cur)
  case Nil
  then show ?case by simp
next
  case (Cons l ls)
  obtain a c where s1: "process_line E um l (w1, cur) = (a, c)"
    by (cases "process_line E um l (w1, cur)")
  obtain b c' where s2: "process_line E um l (w2, cur) = (b, c')"
    by (cases "process_line E um l (w2, cur)")
  have "hush a = hush b" and "c = c'"
    using process_line_quiet [OF Cons.prems, of E um l cur] s1 s2 by simp_all
  then show ?case
    using Cons.IH [of a b c] s1 s2 by simp
qed

lemma hush_log_error: "hush (log_error m w) = hush w"
  by (simp add: hush_def log_error_def)

text \<open>
  C6. Tolerance of malformed frames. A complete frame with the prefix whose payload the
  decoder rejects is logged and dropped: handling it appends one error line to the
  console and changes nothing else, neither the storage nor the page nor the current
  element. The frames after it are processed just the same, and the stream ends in the
  state it would have reached without the frame, console apart.
\<close>

theorem malformed_frame_tolerance:
  assumes "startsWith line ''data: ''"
    and "parse_event E (slice_from 6 line) = None"
  shows "process_line E um line (w, cur) =
           (w\<lparr>console := console w @ [Error ''Error parsing event data:'']\<rparr>, cur) \<and>
         console (fst (process_line E um line (w, cur))) =
           console w @ [Error ''Error parsing event data:''] \<and>
         process_lines E um (before @ line # after) st =
           process_lines E um after
             ((fst (process_lines E um before st))
                \<lparr>console := console (fst (process_lines E um before st)) @
                   [Error ''Error parsing event data:'']\<rparr>,
              snd (process_lines E um before st)) \<and>
         console (fst (process_lines E um (before @ [line]) st)) =
           console (fst (process_lines E um before st)) @ [Error ''Error parsing event data:''] \<and>
         hush (fst (process_lines E um (before @ line # after) st)) =
           hush (fst (process_lines E um (before @ after) st)) \<and>
         snd (process_lines E um (before @ line # after) st) =
           snd (process_lines E um (before @ after) st)"
proof -
  have one: "\<And>v c. process_line E um line (v, c) =
      (v\<lparr>console := console v @ [Error ''Error parsing event data:'']\<rparr>, c)"
    using assms by (simp add: process_line_def log_error_def)
  obtain v c where mid: "process_lines E um before st = (v, c)"
    by (cases "process_lines E um before st")
  have cont: "process_lines E um (before @ line # after) st =
                process_lines E um after
                  (v\<lparr>console := console v @ [Error ''Error parsing event data:'']\<rparr>, c)"
    using mid one by (simp add: process_lines_append)
  have last: "console (fst (process_lines E um (before @ [line]) st)) =
      console v @ [Error ''Error parsing event data:'']"
    using mid one by (simp add: process_lines_append)
  have without: "process_lines E um (before @ after) st = process_lines E um after (v, c)"
    using mid by (simp add: process_lines_append)
  have "hush (v\<lparr>console := console v @ [Error ''Error parsing event data:'']\<rparr>) = hush v"
    by (simp add: hush_def)
  from process_lines_quiet [OF this, of E um after c]
  show ?thesis
    using one cont last without mid by simp
qed

theorem malformed_frame_tolerance_witness:
  "startsWith ''data: {oops'' ''data: '' \<and>
   parse_event sample_env (slice_from 6 ''data: {oops'') = None \<and>
   process_line sample_env ''hi'' ''data: {oops'' (empty_world, 0)
     = (empty_world\<lparr>console := [Error ''Error parsing event data:'']\<rparr>, 0) \<and>
   console (fst (process_line sample_env ''hi'' ''data: {oops'' (empty_world, 0)))
     = [Error ''Error parsing event data:'']"
proof -
  have h1: "startsWith ''data: {oops'' ''data: ''"
    by (simp add: startsWith_def)
  have h2: "parse_event sample_env (slice_from 6 ''data: {oops'') = None"
    by (simp add: sample_env_def sample_parse_def slice_from_def payload_def payload_with_def quoted_def)
  have c: "console empty_world = []"
    by (simp add: empty_world_def)
  show ?thesis
    using malformed_frame_tolerance [OF h1 h2, of "''hi''" empty_world 0] h1 h2 c by simp
qed

section \<open>The dispatcher, kind by kind\<close>


lemma on_chunk:
  "etype d = ''chunk'' \<Longrightarrow>
   handleStreamEvent E d cur um w =
     (update_node cur
        (\<lambda>n. n\<lparr>rawText := rawText n @ (case chunk d of None \<Rightarrow> ''undefined'' | Some t \<Rightarrow> t),
               shown := Text (rawText n @ (case chunk d of None \<Rightarrow> ''undefined'' | Some t \<Rightarrow> t))\<rparr>)
        (removeTypingIndicator w), cur)"
  by (simp add: handleStreamEvent_def)


lemma on_end_turn:
  "etype d = ''end_turn'' \<Longrightarrow> handleStreamEvent E d cur um w = (removeTypingIndicator w, cur)"
  by (simp add: handleStreamEvent_def)



lemma on_auth_required:
  "etype d = ''auth_required'' \<Longrightarrow>
   handleStreamEvent E d cur um w = (setItem ''shopAiLastMessage'' um w, cur)"
  by (simp add: handleStreamEvent_def)


lemma on_tool_use:
  "etype d = ''tool_use'' \<Longrightarrow>
   handleStreamEvent E d cur um w =
     (case tool_use_message d of
        None \<Rightarrow> w
      | Some m \<Rightarrow> if m = [] then w else addToolUse E m w, cur)"
  by (simp add: handleStreamEvent_def split: option.splits)




theorem frame_decoder_split_invariance_witness:
  "complete_frame (''data: '' @ payload_with ''chunk'' ''chunk'' ''Hello'') \<and>
   complete_frame (''data: '' @ payload ''end_turn'') \<and>
   concat sample_reads = wire sample_frames [] \<and>
   frames_of [] sample_reads = (sample_frames, []) \<and>
   messagesContainer (streamResponse sample_env ''hi'' None (Delivered sample_reads) empty_world) =
     [\<lparr>ident = 0, cls = Message ''assistant'', rawText = ''Hello'', shown = Text ''Hello''\<rparr>]"
proof -
  have c1: "complete_frame (''data: '' @ payload_with ''chunk'' ''chunk'' ''Hello'')"
    and c2: "complete_frame (''data: '' @ payload ''end_turn'')"
    by (simp_all add: complete_frame_def payload_def payload_with_def quoted_def dq_def nl_def)
  have h1: "\<forall>f\<in>set sample_frames. complete_frame f"
    using c1 c2 by (simp add: sample_frames_def)
  have h2: "\<not> has_delim []"
    by simp
  have h3: "concat sample_reads = wire sample_frames []"
    by (simp add: sample_reads_def sample_frames_def wire_def payload_def payload_with_def quoted_def)
  note T = frame_decoder_split_invariance [OF h1 h2 h3, of sample_env "''hi''" _ None empty_world]
  have p1: "parse_event sample_env (payload_with ''chunk'' ''chunk'' ''Hello'') =
      Some ((plain ''chunk'')\<lparr>chunk := Some ''Hello''\<rparr>)"
    by (simp add: sample_env_def sample_parse_def)
  have p2: "parse_event sample_env (payload ''end_turn'') = Some (plain ''end_turn'')"
    by (simp add: sample_env_def sample_parse_def payload_def payload_with_def quoted_def)
  have m: "messagesContainer (fst (process_lines sample_env ''hi'' sample_frames
          (open_message (begin_stream ''hi'' None empty_world)))) =
     [\<lparr>ident = 0, cls = Message ''assistant'', rawText = ''Hello'', shown = Text ''Hello''\<rparr>]"
    by (simp add: sample_frames_def process_line_def startsWith_def slice_from_def p1 p2
        on_chunk on_end_turn plain_def open_message_def begin_stream_def empty_world_def
        appendChild_def update_node_def removeTypingIndicator_def)
  have a: "frames_of [] sample_reads = (sample_frames, [])"
    by (rule T [THEN conjunct2, THEN conjunct1])
  have "streamResponse sample_env ''hi'' None (Delivered sample_reads) empty_world =
      fst (process_lines sample_env ''hi'' sample_frames
             (open_message (begin_stream ''hi'' None empty_world)))"
    by (rule T [THEN conjunct2, THEN conjunct2, THEN conjunct2])
  with m have "messagesContainer
      (streamResponse sample_env ''hi'' None (Delivered sample_reads) empty_world) =
     [\<lparr>ident = 0, cls = Message ''assistant'', rawText = ''Hello'', shown = Text ''Hello''\<rparr>]"
    by simp
  with c1 c2 h3 a show ?thesis
    by (intro conjI)
qed

section \<open>One active frame\<close>



lemma remove_first_keeps:
  "\<forall>n. P n \<longrightarrow> \<not> Q n \<Longrightarrow> filter Q (remove_first P ns) = filter Q ns"
  by (induction ns) auto




lemma well_formed_console [simp]:
  "well_formed (log_error m w) = well_formed w" "well_formed (log_info m w) = well_formed w"
  by (simp_all add: well_formed_def log_error_def log_info_def)

lemma well_formed_storage [simp]:
  "well_formed (setItem k v w) = well_formed w" "well_formed (removeItem k w) = well_formed w"
  by (simp_all add: well_formed_def setItem_def removeItem_def)

lemma frames_at_console [simp]:
  "frames_at i (log_error m w) = frames_at i w" "frames_at i (log_info m w) = frames_at i w"
  "frames_at i (setItem k v w) = frames_at i w" "frames_at i (removeItem k w) = frames_at i w"
  by (simp_all add: frames_at_def log_error_def log_info_def setItem_def removeItem_def)

lemma frames_at_removeTypingIndicator [simp]:
  "frames_at i (removeTypingIndicator w) = frames_at i w"
  by (simp add: frames_at_def removeTypingIndicator_def remove_first_keeps)



lemma frames_at_appendChild:
  "frames_at i (appendChild c r d w) =
     frames_at i w @ (if fresh w = i \<and> c = Message ''assistant''
                      then [\<lparr>ident = fresh w, cls = c, rawText = r, shown = d\<rparr>] else [])"
  by (simp add: frames_at_def appendChild_def)





lemma streaming_simps [simp]:
  "streaming i (log_error m w) = streaming i w" "streaming i (log_info m w) = streaming i w"
  "streaming i (setItem k v w) = streaming i w" "streaming i (removeItem k w) = streaming i w"
  by (simp_all add: streaming_def one_active_def)





lemma fresh_simps [simp]:
  "fresh (appendChild c r d w) = Suc (fresh w)"
  "fresh (update_node i f w) = fresh w"
  "fresh (removeTypingIndicator w) = fresh w"
  "fresh (formatMessageContent E i w) = fresh w"
  "fresh (showTypingIndicator w) = Suc (fresh w)"
  "fresh (log_error m w) = fresh w" "fresh (log_info m w) = fresh w"
  "fresh (setItem k v w) = fresh w" "fresh (removeItem k w) = fresh w"
  by (simp_all add: appendChild_def update_node_def removeTypingIndicator_def
      formatMessageContent_def showTypingIndicator_def log_error_def log_info_def
      setItem_def removeItem_def)









lemma frames_at_showTypingIndicator [simp]:
  "frames_at i (showTypingIndicator w) = frames_at i w"
  by (simp add: showTypingIndicator_def frames_at_appendChild)





text \<open>
  C7, as the code has it. An \<^verbatim>\<open>auth_required\<close> event stores the user message of the turn
  in the one pending-replay slot, over whatever was there, and does nothing else: the
  current element stays, the frames after it are processed as before, and no polling
  session is started. Polling starts with \<^verbatim>\<open>openAuthPopup\<close>, the click handler of the
  authentication link: with a conversation id in the storage it opens a polling session
  for it, without one it does nothing.
\<close>

theorem auth_required_stores_pending_replay:
  assumes "etype d = ''auth_required''"
    and "startsWith line ''data: ''"
    and "parse_event E (slice_from 6 line) = Some d"
    and "sessionStorage v ''shopAiConversationId'' = Some c"
    and "c \<noteq> []"
    and "sessionStorage u ''shopAiConversationId'' = None"
  shows "handleStreamEvent E d cur um w =
           (w\<lparr>sessionStorage := (sessionStorage w)(''shopAiLastMessage'' \<mapsto> um)\<rparr>, cur) \<and>
         sessionStorage (fst (handleStreamEvent E d cur um2 (fst (handleStreamEvent E d cur um w))))
           ''shopAiLastMessage'' = Some um2 \<and>
         process_lines E um (line # after) (w, cur) =
           process_lines E um after
             (w\<lparr>sessionStorage := (sessionStorage w)(''shopAiLastMessage'' \<mapsto> um)\<rparr>, cur) \<and>
         pollers (openAuthPopup E now v) =
           pollers v @ [\<lparr>pollingId = ''polling_'' @ dec now, conversationId = c,
                          attemptCount = 0, awaiting = False\<rparr>] \<and>
         timers (openAuthPopup E now v) = timers v @ [(2000, Poll (length (pollers v)))] \<and>
         sessionStorage (openAuthPopup E now v) ''shopAiTokenPollingId'' = Some (''polling_'' @ dec now) \<and>
         openAuthPopup E now u = u"
proof -
  have h: "\<And>m x. handleStreamEvent E d cur m x =
      (x\<lparr>sessionStorage := (sessionStorage x)(''shopAiLastMessage'' \<mapsto> m)\<rparr>, cur)"
    using assms(1) by (simp add: on_auth_required setItem_def)
  have l: "process_line E um line (w, cur) =
      (w\<lparr>sessionStorage := (sessionStorage w)(''shopAiLastMessage'' \<mapsto> um)\<rparr>, cur)"
    using assms(2,3) h by (simp add: process_line_def)
  have p: "openAuthPopup E now v =
      startTokenPolling (Some c) now
        (Message_add E ''Authentication in progress. Please complete the process in the popup window.''
           ''assistant'' v)"
    using assms(4,5) by (simp add: openAuthPopup_def)
  have p1: "pollers (openAuthPopup E now v) =
           pollers v @ [\<lparr>pollingId = ''polling_'' @ dec now, conversationId = c,
                          attemptCount = 0, awaiting = False\<rparr>]"
    using assms(5) unfolding p
    by (simp add: startTokenPolling_def setTimeout_def setItem_def log_info_def Message_add_def
        appendChild_def)
  have p2: "timers (openAuthPopup E now v) = timers v @ [(2000, Poll (length (pollers v)))]"
    using assms(5) unfolding p
    by (simp add: startTokenPolling_def setTimeout_def setItem_def log_info_def Message_add_def
        appendChild_def)
  have p3: "sessionStorage (openAuthPopup E now v) ''shopAiTokenPollingId'' = Some (''polling_'' @ dec now)"
    using assms(5) unfolding p
    by (simp add: startTokenPolling_def setTimeout_def setItem_def log_info_def Message_add_def
        appendChild_def)
  have p4: "openAuthPopup E now u = u"
    using assms(6) by (simp add: openAuthPopup_def)
  show ?thesis
    using h l p1 p2 p3 p4 by simp
qed

theorem auth_required_stores_pending_replay_witness:
  "etype (plain ''auth_required'') = ''auth_required'' \<and>
   startsWith (''data: '' @ payload ''auth_required'') ''data: '' \<and>
   parse_event sample_env (slice_from 6 (''data: '' @ payload ''auth_required''))
     = Some (plain ''auth_required'') \<and>
   sessionStorage sample_session ''shopAiConversationId'' = Some ''c1'' \<and>
   sessionStorage empty_world ''shopAiConversationId'' = None \<and>
   handleStreamEvent sample_env (plain ''auth_required'') 0 ''find my order'' sample_session =
     (sample_session\<lparr>sessionStorage :=
        (sessionStorage sample_session)(''shopAiLastMessage'' \<mapsto> ''find my order'')\<rparr>, 0) \<and>
   timers (openAuthPopup sample_env 1000 sample_session) = [(2000, Poll 0)] \<and>
   openAuthPopup sample_env 1000 empty_world = empty_world"
proof -
  have h1: "etype (plain ''auth_required'') = ''auth_required''"
    by (simp add: plain_def)
  have h2: "startsWith (''data: '' @ payload ''auth_required'') ''data: ''"
    by (simp add: startsWith_def)
  have h3: "parse_event sample_env (slice_from 6 (''data: '' @ payload ''auth_required''))
     = Some (plain ''auth_required'')"
    by (simp add: sample_env_def sample_parse_def slice_from_def payload_def payload_with_def
        quoted_def)
  have h4: "sessionStorage sample_session ''shopAiConversationId'' = Some ''c1''"
    by (simp add: sample_session_def setItem_def)
  have h5: "''c1'' \<noteq> []"
    by simp
  have h6: "sessionStorage empty_world ''shopAiConversationId'' = None"
    by (simp add: empty_world_def)
  have t: "timers sample_session = []" and p: "pollers sample_session = []"
    by (simp_all add: sample_session_def setItem_def sample_page_def appendChild_def empty_world_def)
  show ?thesis
    using auth_required_stores_pending_replay [OF h1 h2 h3 h4 h5 h6,
        of 0 "''find my order''" sample_session _ _ 1000]
      h1 h2 h3 h4 h6 t p
    by simp
qed

text \<open>
  On a page with a stored conversation id, an \<^verbatim>\<open>auth_required\<close> event leaves no polling
  session, no timeout, no request and no polling identifier behind: only the pending
  message is stored.
\<close>

theorem auth_required_starts_no_poller:
  "pollers (fst (handleStreamEvent sample_env (plain ''auth_required'') 0 ''find my order''
      sample_session)) = [] \<and>
   timers (fst (handleStreamEvent sample_env (plain ''auth_required'') 0 ''find my order''
      sample_session)) = [] \<and>
   requests (fst (handleStreamEvent sample_env (plain ''auth_required'') 0 ''find my order''
      sample_session)) = [] \<and>
   sessionStorage (fst (handleStreamEvent sample_env (plain ''auth_required'') 0 ''find my order''
      sample_session)) ''shopAiTokenPollingId'' = None \<and>
   sessionStorage (fst (handleStreamEvent sample_env (plain ''auth_required'') 0 ''find my order''
      sample_session)) ''shopAiLastMessage'' = Some ''find my order''"
  by (simp add: handleStreamEvent_def plain_def setItem_def sample_session_def sample_page_def
      appendChild_def empty_world_def)

section \<open>The tool-use pattern\<close>

lemma strip_prefix_append [simp]: "strip_prefix p (p @ s) = Some s"
  by (simp add: strip_prefix_def startsWith_def)

lemma not_word_char_blank: "\<not> word_char CHR '' ''"
  by (simp add: word_char_def)

lemma match_here_format:
  assumes "name \<noteq> []" and "list_all word_char name"
    and "rest \<noteq> []" and "list_all (\<lambda>c. \<not> line_terminator c) rest"
  shows "match_here (''Calling tool: '' @ name @ '' with arguments: '' @ rest) = Some (name, rest)"
proof -
  have tw: "takeWhile word_char (name @ '' with arguments: '' @ rest) = name"
    using assms(2) not_word_char_blank by (simp add: list_all_iff takeWhile_append2)
  have dw: "dropWhile word_char (name @ '' with arguments: '' @ rest) = '' with arguments: '' @ rest"
    using assms(2) not_word_char_blank by (simp add: list_all_iff dropWhile_append2)
  have ta: "takeWhile (\<lambda>c. \<not> line_terminator c) rest = rest"
    using assms(4) by (simp add: list_all_iff)
  have "strip_prefix ''Calling tool: '' (''Calling tool: '' @ name @ '' with arguments: '' @ rest)
          = Some (name @ '' with arguments: '' @ rest)"
    by (rule strip_prefix_append)
  moreover have "strip_prefix '' with arguments: '' ('' with arguments: '' @ rest) = Some rest"
    by (rule strip_prefix_append)
  ultimately show ?thesis
    using assms(1,3) by (simp add: match_here_def Let_def tw dw ta del: append.simps)
qed

lemma tool_match_here: "match_here s = Some r \<Longrightarrow> tool_match s = Some r"
  by (cases s) (simp_all add: match_here_def strip_prefix_def startsWith_def)

lemma tool_match_format:
  assumes "name \<noteq> []" and "list_all word_char name"
    and "rest \<noteq> []" and "list_all (\<lambda>c. \<not> line_terminator c) rest"
  shows "tool_match (''Calling tool: '' @ name @ '' with arguments: '' @ rest) = Some (name, rest)"
  using match_here_format [OF assms] by (rule tool_match_here)

text \<open>
  C8, as the code has it. A \<^verbatim>\<open>tool_use\<close> event whose message is a non-empty text always
  adds exactly one tool-use element: the pattern is tried once on the message; where it
  matches, the element shows the tool name and the arguments, pretty-printed when they
  decode as JSON and as they are otherwise; where it does not, the element shows the
  whole message as text. A message of the form
  \<^verbatim>\<open>Calling tool: <name> with arguments: <rest>\<close>, with a name of word characters and a
  rest on one line, matches with exactly that name and rest.
\<close>

theorem tool_use_forwarded:
  assumes "etype d = ''tool_use''"
    and "tool_use_message d = Some m"
    and "m \<noteq> []"
    and "name \<noteq> []" and "list_all word_char name"
    and "rest \<noteq> []" and "list_all (\<lambda>c. \<not> line_terminator c) rest"
  shows "handleStreamEvent E d cur um w =
           (appendChild Tool_use []
              (case tool_match m of
                 None \<Rightarrow> Text m
               | Some (toolName, argsString) \<Rightarrow>
                   Tool_call toolName
                     (case pretty_args E argsString of Some p \<Rightarrow> p | None \<Rightarrow> argsString)) w,
            cur) \<and>
         length (messagesContainer (fst (handleStreamEvent E d cur um w))) =
           Suc (length (messagesContainer w)) \<and>
         tool_match (''Calling tool: '' @ name @ '' with arguments: '' @ rest) = Some (name, rest)"
proof -
  have h: "handleStreamEvent E d cur um w = (addToolUse E m w, cur)"
    using assms(1,2,3) by (simp add: on_tool_use)
  have a: "addToolUse E m w =
      appendChild Tool_use []
        (case tool_match m of
           None \<Rightarrow> Text m
         | Some (toolName, argsString) \<Rightarrow>
             Tool_call toolName
               (case pretty_args E argsString of Some p \<Rightarrow> p | None \<Rightarrow> argsString)) w"
    by (simp add: addToolUse_def split: option.splits)
  have l: "length (messagesContainer (addToolUse E m w)) = Suc (length (messagesContainer w))"
    unfolding a by (simp add: appendChild_def)
  show ?thesis
    using h a l tool_match_format [OF assms(4,5,6,7)] by simp
qed

theorem tool_use_forwarded_witness:
  "etype sample_tool_use = ''tool_use'' \<and>
   tool_use_message sample_tool_use =
     Some (''Calling tool: '' @ ''search_products'' @ '' with arguments: '' @ sample_args) \<and>
   list_all word_char ''search_products'' \<and>
   list_all (\<lambda>c. \<not> line_terminator c) sample_args \<and>
   handleStreamEvent sample_env sample_tool_use 0 ''shoes?'' sample_page =
     (appendChild Tool_use [] (Tool_call ''search_products'' sample_args) sample_page, 0)"
proof -
  let ?m = "''Calling tool: '' @ ''search_products'' @ '' with arguments: '' @ sample_args"
  have h1: "etype sample_tool_use = ''tool_use''"
    by (simp add: sample_tool_use_def plain_def)
  have h2: "tool_use_message sample_tool_use = Some ?m"
    by (simp add: sample_tool_use_def)
  have h3: "?m \<noteq> []"
    by simp
  have h4: "''search_products'' \<noteq> []"
    by simp
  have h5: "list_all word_char ''search_products''"
    by (simp add: word_char_def)
  have h6: "sample_args \<noteq> []"
    by (simp add: sample_args_def)
  have h7: "list_all (\<lambda>c. \<not> line_terminator c) sample_args"
    by (simp add: sample_args_def quoted_def dq_def line_terminator_def nl_def cr_def)
  have p: "pretty_args sample_env sample_args = None"
    by (simp add: sample_env_def sample_args_def)
  from tool_use_forwarded [OF h1 h2 h3 h4 h5 h6 h7, of sample_env 0 "''shoes?''" sample_page]
  have "handleStreamEvent sample_env sample_tool_use 0 ''shoes?'' sample_page =
     (appendChild Tool_use [] (Tool_call ''search_products'' sample_args) sample_page, 0)"
    using p by (simp del: append.simps)
  then show ?thesis
    using h1 h2 h5 h7 by simp
qed

text \<open>
  A \<^verbatim>\<open>tool_use\<close> event whose message is the empty text, or is missing, adds nothing to
  the page.
\<close>

theorem tool_use_empty_message_dropped:
  "handleStreamEvent sample_env ((plain ''tool_use'')\<lparr>tool_use_message := Some []\<rparr>) 0 ''shoes?''
     sample_page = (sample_page, 0) \<and>
   handleStreamEvent sample_env (plain ''tool_use'') 0 ''shoes?'' sample_page = (sample_page, 0)"
  by (simp add: handleStreamEvent_def plain_def)

section \<open>The stored conversation id\<close>

lemma sessionStorage_page [simp]:
  "sessionStorage (appendChild c r d w) = sessionStorage w"
  "sessionStorage (update_node i f w) = sessionStorage w"
  "sessionStorage (removeTypingIndicator w) = sessionStorage w"
  "sessionStorage (showTypingIndicator w) = sessionStorage w"
  "sessionStorage (formatMessageContent E i w) = sessionStorage w"
  "sessionStorage (Message_add E t s w) = sessionStorage w"
  "sessionStorage (addToolUse E m w) = sessionStorage w"
  "sessionStorage (displayProductResults ps w) = sessionStorage w"
  "sessionStorage (log_info m w) = sessionStorage w"
  "sessionStorage (log_error m w) = sessionStorage w"
  "sessionStorage (begin_stream um conv w) = sessionStorage w"
  "sessionStorage (setTimeout cb ms w) = sessionStorage w"
  by (simp_all add: appendChild_def update_node_def removeTypingIndicator_def
      showTypingIndicator_def formatMessageContent_def Message_add_def addToolUse_def
      displayProductResults_def log_info_def log_error_def begin_stream_def setTimeout_def
      split: option.splits prod.splits)

lemma has_conversation_page [simp]:
  "has_conversation (appendChild c r d w) = has_conversation w"
  "has_conversation (update_node i f w) = has_conversation w"
  "has_conversation (removeTypingIndicator w) = has_conversation w"
  "has_conversation (showTypingIndicator w) = has_conversation w"
  "has_conversation (formatMessageContent E i w) = has_conversation w"
  "has_conversation (Message_add E t s w) = has_conversation w"
  "has_conversation (addToolUse E m w) = has_conversation w"
  "has_conversation (displayProductResults ps w) = has_conversation w"
  "has_conversation (log_info m w) = has_conversation w"
  "has_conversation (log_error m w) = has_conversation w"
  "has_conversation (begin_stream um conv w) = has_conversation w"
  "has_conversation (setTimeout cb ms w) = has_conversation w"
  by (simp_all add: has_conversation_def)


























lemma sample_token_text:
  "JSON_stringify sample_builtins (token_payload ''u1'' 1700000000000) =
     ''{'' @ quoted ''userId'' @ '':'' @ quoted ''u1'' @ '','' @ quoted ''exp'' @ '':1700604800000}''"
  by (simp add: sample_builtins_def token_payload_def week_def dec.simps digit_def)

lemma sample_token_encoded:
  "encode_base64 (''{'' @ quoted ''userId'' @ '':'' @ quoted ''u1'' @ '','' @ quoted ''exp'' @ '':1700604800000}'')
     = ''eyJ1c2VySWQiOiJ1MSIsImV4cCI6MTcwMDYwNDgwMDAwMH0=''"
  by (simp add: quoted_def dq_def b64_def b64_chars_def encode_base64_def nat_of_bits_def)

lemma sample_token_decoded:
  "decode_base64 ''eyJ1c2VySWQiOiJ1MSIsImV4cCI6MTcwMDYwNDgwMDAwMH0='' =
     ''{'' @ quoted ''userId'' @ '':'' @ quoted ''u1'' @ '','' @ quoted ''exp'' @ '':1700604800000}''"
  by (simp add: quoted_def dq_def b64_chars_def decode_base64_def bits_of_sextet_def)

lemma sample_token_parsed:
  "sample_parse_json (''{'' @ quoted ''userId'' @ '':'' @ quoted ''u1'' @ '','' @ quoted ''exp'' @ '':1700604800000}'')
     = Some (token_payload ''u1'' 1700000000000)"
  by (simp add: quoted_def dq_def sample_parse_json_def strip_prefix_def startsWith_def
      is_digit_def undec_def token_payload_def week_def)

lemma sample_token_round_trip:
  "JSON_parse sample_builtins (from_base64 sample_builtins (to_base64 sample_builtins
     (JSON_stringify sample_builtins (token_payload ''u1'' 1700000000000))))
   = Some (token_payload ''u1'' 1700000000000)"
proof -
  have "to_base64 sample_builtins (JSON_stringify sample_builtins (token_payload ''u1'' 1700000000000))
          = ''eyJ1c2VySWQiOiJ1MSIsImV4cCI6MTcwMDYwNDgwMDAwMH0=''"
    using sample_token_text sample_token_encoded by (simp add: sample_builtins_def)
  then show ?thesis
    using sample_token_decoded sample_token_parsed by (simp add: sample_builtins_def)
qed

lemma sample_not_a_token:
  "JSON_parse sample_builtins (from_base64 sample_builtins ''not a token'') = None"
  by (simp add: sample_builtins_def quoted_def dq_def b64_chars_def decode_base64_def
      bits_of_sextet_def sample_parse_json_def strip_prefix_def startsWith_def)

text \<open>
  C10, as the code has it. Where the platform round-trips the payload (the base64 text of
  its JSON decodes and parses back to it), a token generated for a user id parses back to
  the payload with that user id at every time up to and including the recorded expiry, a
  week after it was issued, and to \<^verbatim>\<open>null\<close> at every later time. A text whose base64
  decoding is not JSON parses to \<^verbatim>\<open>null\<close>; nothing is thrown.
\<close>

theorem token_round_trip:
  assumes "JSON_parse B (from_base64 B (to_base64 B (JSON_stringify B (token_payload userId issued))))
             = Some (token_payload userId issued)"
    and "JSON_parse B (from_base64 B garbage) = None"
  shows "(now \<le> issued + week \<longrightarrow>
            parseToken B (generateToken B userId issued) now = Some (token_payload userId issued)) \<and>
         property (token_payload userId issued) ''userId'' = Value (JStr userId) \<and>
         property (token_payload userId issued) ''exp'' = Value (JNum (issued + week)) \<and>
         (issued + week < now \<longrightarrow> parseToken B (generateToken B userId issued) now = None) \<and>
         parseToken B garbage now = None"
proof -
  have e: "property (token_payload userId issued) ''exp'' = Value (JNum (issued + week))"
    by (simp add: token_payload_def)
  have u: "property (token_payload userId issued) ''userId'' = Value (JStr userId)"
    by (simp add: token_payload_def)
  have p: "parseToken B (generateToken B userId issued) now =
      (if issued + week < now then None else Some (token_payload userId issued))"
    using assms(1) e by (simp add: parseToken_def generateToken_def)
  have g: "parseToken B garbage now = None"
    using assms(2) by (simp add: parseToken_def)
  show ?thesis
    using e u p g by simp
qed

theorem token_round_trip_witness:
  "JSON_parse sample_builtins (from_base64 sample_builtins (to_base64 sample_builtins
     (JSON_stringify sample_builtins (token_payload ''u1'' 1700000000000))))
     = Some (token_payload ''u1'' 1700000000000) \<and>
   JSON_parse sample_builtins (from_base64 sample_builtins ''not a token'') = None \<and>
   parseToken sample_builtins (generateToken sample_builtins ''u1'' 1700000000000) 1700000000001
     = Some (token_payload ''u1'' 1700000000000) \<and>
   parseToken sample_builtins (generateToken sample_builtins ''u1'' 1700000000000) 1700604800001
     = None \<and>
   parseToken sample_builtins ''not a token'' 1700000000001 = None"
proof -
  note h1 = sample_token_round_trip
  note h2 = sample_not_a_token
  have a: "parseToken sample_builtins (generateToken sample_builtins ''u1'' 1700000000000) 1700000000001
     = Some (token_payload ''u1'' 1700000000000)"
    using token_round_trip [OF h1 h2, of 1700000000001] by (simp add: week_def)
  have b: "parseToken sample_builtins (generateToken sample_builtins ''u1'' 1700000000000) 1700604800001
     = None"
    using token_round_trip [OF h1 h2, of 1700604800001] by (simp add: week_def)
  have c: "parseToken sample_builtins ''not a token'' 1700000000001 = None"
    using token_round_trip [OF h1 h2, of 1700000000001] by simp
  show ?thesis
    using h1 h2 a b c by simp
qed

text \<open>
  A token issued at 1700000000000 records the expiry 1700604800000; parsed when the clock
  shows exactly that value it still yields its payload.
\<close>

theorem token_valid_at_expiry:
  "property (token_payload ''u1'' 1700000000000) ''exp'' = Value (JNum 1700604800000) \<and>
   parseToken sample_builtins (generateToken sample_builtins ''u1'' 1700000000000) 1700604800000
     = Some (token_payload ''u1'' 1700000000000)"
  using sample_token_round_trip
  by (simp add: parseToken_def generateToken_def token_payload_def week_def)

section \<open>The poller, step by step\<close>

lemma fire_last:
  "timers w = ts @ [(d, cb)] \<Longrightarrow>
   step E (Fire (length ts)) w =
     (case cb of Poll h \<Rightarrow> poll h (w\<lparr>timers := ts\<rparr>) | Resume m c \<Rightarrow> resume E m c (w\<lparr>timers := ts\<rparr>))"
  by (simp split: callback.splits)

lemma poll_superseded:
  "h < length (pollers w) \<Longrightarrow>
   sessionStorage w ''shopAiTokenPollingId'' \<noteq> Some (pollingId (pollers w ! h)) \<Longrightarrow>
   poll h w = log_info ''Another polling session has started, stopping this one'' w"
  by (simp add: poll_def)


lemma poll_current:
  "h < length (pollers w) \<Longrightarrow>
   sessionStorage w ''shopAiTokenPollingId'' = Some (pollingId (pollers w ! h)) \<Longrightarrow>
   attemptCount (pollers w ! h) < maxAttempts \<Longrightarrow>
   poll h w =
     w\<lparr>pollers := (pollers w)[h := (pollers w ! h)
          \<lparr>attemptCount := Suc (attemptCount (pollers w ! h)), awaiting := True\<rparr>],
       requests := requests w @ [Token_status (conversationId (pollers w ! h))]\<rparr>"
  by (simp add: poll_def)

lemma answer_waiting:
  "h < length (pollers w) \<Longrightarrow> awaiting (pollers w ! h) \<Longrightarrow> \<not> authorized r \<Longrightarrow>
   poll_answer h r w =
     w\<lparr>pollers := (pollers w)[h := (pollers w ! h)\<lparr>awaiting := False\<rparr>],
       console := console w @ [answer_log r],
       timers := timers w @ [(10000, Poll h)],
       scheduled := scheduled w @ [(10000, Poll h)]\<rparr>"
  by (cases r)
     (simp_all add: poll_answer_def authorized_def Let_def setTimeout_def log_info_def log_error_def)

lemma answer_authorized:
  "h < length (pollers w) \<Longrightarrow> awaiting (pollers w ! h) \<Longrightarrow>
   sessionStorage w ''shopAiLastMessage'' = Some m \<Longrightarrow> m \<noteq> [] \<Longrightarrow>
   poll_answer h (Status (Some ''authorized'')) w =
     w\<lparr>pollers := (pollers w)[h := (pollers w ! h)\<lparr>awaiting := False\<rparr>],
       console := console w @ [Info ''Token available, resuming conversation''],
       sessionStorage := (sessionStorage w)(''shopAiLastMessage'' := None, ''shopAiTokenPollingId'' := None),
       timers := timers w @ [(500, Resume m (conversationId (pollers w ! h)))],
       scheduled := scheduled w @ [(500, Resume m (conversationId (pollers w ! h)))]\<rparr>"
  by (simp add: poll_answer_def Let_def setTimeout_def log_info_def removeItem_def)

lemma startTokenPolling_eq:
  "c \<noteq> [] \<Longrightarrow>
   startTokenPolling (Some c) now w =
     w\<lparr>console := console w @ [Info ''Starting token polling for conversation:''],
       sessionStorage := (sessionStorage w)(''shopAiTokenPollingId'' \<mapsto> ''polling_'' @ dec now),
       pollers := pollers w @
         [\<lparr>pollingId = ''polling_'' @ dec now, conversationId = c, attemptCount = 0,
           awaiting = False\<rparr>],
       timers := timers w @ [(2000, Poll (length (pollers w)))],
       scheduled := scheduled w @ [(2000, Poll (length (pollers w)))]\<rparr>"
  by (simp add: startTokenPolling_def setTimeout_def setItem_def log_info_def)

lemma poll_round:
  assumes "polling h pid c n ts d w" and "n < maxAttempts" and "\<not> authorized r"
  shows "run E [Fire (length ts), Answer h r] w =
     w\<lparr>pollers := (pollers w)
          [h := \<lparr>pollingId = pid, conversationId = c, attemptCount = Suc n, awaiting = False\<rparr>],
       requests := requests w @ [Token_status c],
       console := console w @ [answer_log r],
       timers := ts @ [(10000, Poll h)],
       scheduled := scheduled w @ [(10000, Poll h)]\<rparr>"
proof -
  let ?p = "\<lparr>pollingId = pid, conversationId = c, attemptCount = n, awaiting = False\<rparr>"
  let ?v = "w\<lparr>timers := ts\<rparr>"
  have h: "h < length (pollers w)" and p: "pollers w ! h = ?p"
    and s: "sessionStorage w ''shopAiTokenPollingId'' = Some pid"
    and t: "timers w = ts @ [(d, Poll h)]"
    using assms(1) by (simp_all add: polling_def)
  have f: "step E (Fire (length ts)) w = poll h ?v"
    using fire_last [OF t, of E] by simp
  have "poll h ?v =
      ?v\<lparr>pollers := (pollers ?v)[h := (pollers ?v ! h)
           \<lparr>attemptCount := Suc (attemptCount (pollers ?v ! h)), awaiting := True\<rparr>],
        requests := requests ?v @ [Token_status (conversationId (pollers ?v ! h))]\<rparr>"
    using h p s assms(2) by (intro poll_current) simp_all
  then have a: "poll h ?v =
      w\<lparr>timers := ts,
        pollers := (pollers w)
          [h := \<lparr>pollingId = pid, conversationId = c, attemptCount = Suc n, awaiting = True\<rparr>],
        requests := requests w @ [Token_status c]\<rparr>" (is "_ = ?u")
    using p by simp
  have "poll_answer h r ?u =
      ?u\<lparr>pollers := (pollers ?u)[h := (pollers ?u ! h)\<lparr>awaiting := False\<rparr>],
       console := console ?u @ [answer_log r],
       timers := timers ?u @ [(10000, Poll h)],
       scheduled := scheduled ?u @ [(10000, Poll h)]\<rparr>"
    using h assms(3) by (intro answer_waiting) simp_all
  then show ?thesis
    using f a h by simp
qed

lemma polling_after_round:
  assumes "polling h pid c n ts d w"
  shows "polling h pid c (Suc n) ts 10000
     (w\<lparr>pollers := (pollers w)
          [h := \<lparr>pollingId = pid, conversationId = c, attemptCount = Suc n, awaiting = False\<rparr>],
       requests := rq, console := co, timers := ts @ [(10000, Poll h)], scheduled := sc\<rparr>)"
  using assms by (simp add: polling_def)

lemma poll_rounds:
  assumes "polling h pid c n ts d w"
    and "n + length rs \<le> maxAttempts"
    and "list_all (\<lambda>r. \<not> authorized r) rs"
  shows "run E (ticks (length ts) h rs) w =
     w\<lparr>pollers := (pollers w)
          [h := \<lparr>pollingId = pid, conversationId = c, attemptCount = n + length rs,
                 awaiting = False\<rparr>],
       requests := requests w @ replicate (length rs) (Token_status c),
       console := console w @ map answer_log rs,
       timers := ts @ [(if rs = [] then d else 10000, Poll h)],
       scheduled := scheduled w @ replicate (length rs) (10000, Poll h)\<rparr>"
  using assms
proof (induction rs arbitrary: w n d)
  case Nil
  then have "(pollers w)[h := \<lparr>pollingId = pid, conversationId = c, attemptCount = n,
      awaiting = False\<rparr>] = pollers w" and "timers w = ts @ [(d, Poll h)]"
    by (auto simp: polling_def list_update_same_conv)
  then show ?case by simp
next
  case (Cons r rs)
  let ?w1 = "w\<lparr>pollers := (pollers w)
          [h := \<lparr>pollingId = pid, conversationId = c, attemptCount = Suc n, awaiting = False\<rparr>],
       requests := requests w @ [Token_status c],
       console := console w @ [answer_log r],
       timers := ts @ [(10000, Poll h)],
       scheduled := scheduled w @ [(10000, Poll h)]\<rparr>"
  have r: "run E [Fire (length ts), Answer h r] w = ?w1"
    using Cons.prems by (intro poll_round) simp_all
  have p1: "polling h pid c (Suc n) ts 10000 ?w1"
    using Cons.prems(1) by (rule polling_after_round)
  have "run E (ticks (length ts) h rs) ?w1 =
     ?w1\<lparr>pollers := (pollers ?w1)
          [h := \<lparr>pollingId = pid, conversationId = c, attemptCount = Suc n + length rs,
                 awaiting = False\<rparr>],
       requests := requests ?w1 @ replicate (length rs) (Token_status c),
       console := console ?w1 @ map answer_log rs,
       timers := ts @ [(if rs = [] then 10000 else 10000, Poll h)],
       scheduled := scheduled ?w1 @ replicate (length rs) (10000, Poll h)\<rparr>"
    using Cons.prems by (intro Cons.IH [OF p1]) simp_all
  moreover have "run E (ticks (length ts) h (r # rs)) w = run E (ticks (length ts) h rs) ?w1"
    using r by simp
  ultimately show ?case
    by (simp add: replicate_append_same)
qed

lemma polling_started:
  assumes "c \<noteq> []"
  shows "polling (length (pollers w)) (''polling_'' @ dec now) c 0 (timers w) 2000
           (startTokenPolling (Some c) now w)"
  using assms by (simp add: startTokenPolling_eq polling_def)

section \<open>A session among other handlers\<close>

lemma resume_requests:
  "requests (resume E m c w) = requests w @ [Chat m (Some c)]"
  "timers (resume E m c w) = timers w"
  "sessionStorage (resume E m c w) = sessionStorage w"
  by (simp_all add: resume_def showTypingIndicator_def begin_stream_def Message_add_def
      appendChild_def)

lemma poll_storage: "sessionStorage (poll h w) = sessionStorage w"
  by (simp add: poll_def log_info_def)


























lemma sample_session_idle:
  "timers sample_session = []" "pollers sample_session = []" "requests sample_session = []"
  "sessionStorage sample_session ''shopAiConversationId'' = Some ''c1''"
  by (simp_all add: sample_session_def setItem_def sample_page_def appendChild_def empty_world_def)




section \<open>Replaying the pending message\<close>

lemma run_append: "run E (xs @ ys) w = run E ys (run E xs w)"
  by (induction xs arbitrary: w) simp_all

lemma ticks_append: "ticks k h (xs @ ys) = ticks k h xs @ ticks k h ys"
  by (induction xs) simp_all

lemma polling_after_rounds:
  assumes "polling h pid c n ts d w"
  shows "polling h pid c (n + k) ts d'
     (w\<lparr>pollers := (pollers w)
          [h := \<lparr>pollingId = pid, conversationId = c, attemptCount = n + k, awaiting = False\<rparr>],
       requests := rq, console := co, timers := ts @ [(d', Poll h)], scheduled := sc\<rparr>)"
  using assms by (simp add: polling_def)

lemma authorized_round:
  assumes "polling h pid c n ts d w" and "n < maxAttempts"
    and "sessionStorage w ''shopAiLastMessage'' = Some m" and "m \<noteq> []"
  shows "run E [Fire (length ts), Answer h (Status (Some ''authorized''))] w =
     w\<lparr>pollers := (pollers w)
          [h := \<lparr>pollingId = pid, conversationId = c, attemptCount = Suc n, awaiting = False\<rparr>],
       requests := requests w @ [Token_status c],
       console := console w @ [Info ''Token available, resuming conversation''],
       sessionStorage := (sessionStorage w)
          (''shopAiLastMessage'' := None, ''shopAiTokenPollingId'' := None),
       timers := ts @ [(500, Resume m c)],
       scheduled := scheduled w @ [(500, Resume m c)]\<rparr>"
proof -
  let ?p = "\<lparr>pollingId = pid, conversationId = c, attemptCount = n, awaiting = False\<rparr>"
  let ?v = "w\<lparr>timers := ts\<rparr>"
  have h: "h < length (pollers w)" and p: "pollers w ! h = ?p"
    and s: "sessionStorage w ''shopAiTokenPollingId'' = Some pid"
    and t: "timers w = ts @ [(d, Poll h)]"
    using assms(1) by (simp_all add: polling_def)
  have f: "step E (Fire (length ts)) w = poll h ?v"
    using fire_last [OF t, of E] by simp
  have "poll h ?v =
      ?v\<lparr>pollers := (pollers ?v)[h := (pollers ?v ! h)
           \<lparr>attemptCount := Suc (attemptCount (pollers ?v ! h)), awaiting := True\<rparr>],
        requests := requests ?v @ [Token_status (conversationId (pollers ?v ! h))]\<rparr>"
    using h p s assms(2) by (intro poll_current) simp_all
  then have a: "poll h ?v =
      w\<lparr>timers := ts,
        pollers := (pollers w)
          [h := \<lparr>pollingId = pid, conversationId = c, attemptCount = Suc n, awaiting = True\<rparr>],
        requests := requests w @ [Token_status c]\<rparr>" (is "_ = ?u")
    using p by simp
  have "poll_answer h (Status (Some ''authorized'')) ?u =
     ?u\<lparr>pollers := (pollers ?u)[h := (pollers ?u ! h)\<lparr>awaiting := False\<rparr>],
       console := console ?u @ [Info ''Token available, resuming conversation''],
       sessionStorage := (sessionStorage ?u)
          (''shopAiLastMessage'' := None, ''shopAiTokenPollingId'' := None),
       timers := timers ?u @ [(500, Resume m (conversationId (pollers ?u ! h)))],
       scheduled := scheduled ?u @ [(500, Resume m (conversationId (pollers ?u ! h)))]\<rparr>"
    using h assms(3,4) by (intro answer_authorized) simp_all
  then show ?thesis
    using f a h by simp
qed

lemma quiescent_step:
  assumes "quiescent w"
  shows "quiescent (step E e w) \<and>
         filter is_chat (requests (step E e w)) = filter is_chat (requests w)"
proof (cases e)
  case (Click now)
  with assms show ?thesis
    by (simp add: quiescent_def openAuthPopup_def startTokenPolling_def setTimeout_def
        setItem_def log_info_def Message_add_def appendChild_def split: option.splits)
next
  case (Start conv now)
  with assms show ?thesis
    by (simp add: quiescent_def startTokenPolling_def setTimeout_def setItem_def log_info_def
        split: option.splits)
next
  case (Fire k)
  show ?thesis
  proof (cases "k < length (timers w)")
    case False
    with Fire assms show ?thesis by simp
  next
    case True
    then have "timers w ! k \<in> set (timers w)" by simp
    then have nr: "\<not> is_resume (timers w ! k)"
      using assms by (simp add: quiescent_def list_all_iff)
    obtain d cb where dk: "timers w ! k = (d, cb)"
      by (cases "timers w ! k")
    with nr obtain h where cb: "cb = Poll h"
      by (cases cb) simp_all
    have rest: "list_all (\<lambda>t. \<not> is_resume t) (take k (timers w) @ drop (Suc k) (timers w))"
      using assms
      by (auto simp: quiescent_def list_all_iff dest: in_set_takeD in_set_dropD)
    show ?thesis
      using Fire True dk cb assms rest
      by (simp add: quiescent_def poll_def log_info_def)
  qed
next
  case (Answer h resp)
  with assms show ?thesis
    by (cases resp)
       (auto simp: quiescent_def poll_answer_def Let_def setTimeout_def log_info_def log_error_def
          removeItem_def split: option.splits)
qed

lemma quiescent_run:
  "quiescent w \<Longrightarrow>
   quiescent (run E evs w) \<and> filter is_chat (requests (run E evs w)) = filter is_chat (requests w)"
proof (induction evs arbitrary: w)
  case Nil
  then show ?case by simp
next
  case (Cons e evs)
  from quiescent_step [OF Cons.prems, of E e]
  have q: "quiescent (step E e w)"
    and r: "filter is_chat (requests (step E e w)) = filter is_chat (requests w)"
    by simp_all
  from Cons.IH [OF q] r show ?case by simp
qed

text \<open>
  C3. The pending message is replayed exactly once. A polling session is started while a
  non-empty message waits in the pending-replay slot, and ticks alone; some of its status
  requests are answered otherwise (fewer than thirty), then one is answered
  \<^verbatim>\<open>authorized\<close>. On that answer the poller empties the slot, removes the polling session
  identifier and sets the timeout of the replay; no further tick of the session is
  pending. When the replay fires it opens one chat request, with the waiting text and the
  conversation id of the session. From then on, whatever the handlers of the poller do
  (clicks, new sessions, timeouts, answers, in any number and order), no second chat
  request is made.
\<close>

theorem replay_exactly_once:
  assumes "c \<noteq> []"
    and "sessionStorage w ''shopAiLastMessage'' = Some m"
    and "m \<noteq> []"
    and "list_all (\<lambda>r. \<not> authorized r) pre"
    and "length pre < maxAttempts"
    and "list_all (\<lambda>t. \<not> is_resume t) (timers w)"
    and "w1 = startTokenPolling (Some c) now w"
    and "w2 = run E (ticks (length (timers w)) (length (pollers w))
                 (pre @ [Status (Some ''authorized'')])) w1"
    and "w3 = step E (Fire (length (timers w))) w2"
  shows "sessionStorage w2 ''shopAiLastMessage'' = None \<and>
         sessionStorage w2 ''shopAiTokenPollingId'' = None \<and>
         timers w2 = timers w @ [(500, Resume m c)] \<and>
         requests w2 = requests w @ replicate (Suc (length pre)) (Token_status c) \<and>
         requests w3 = requests w2 @ [Chat m (Some c)] \<and>
         timers w3 = timers w \<and>
         filter is_chat (requests (run E evs w3)) = filter is_chat (requests w) @ [Chat m (Some c)]"
proof -
  let ?h = "length (pollers w)"
  let ?pid = "''polling_'' @ dec now"
  let ?d = "if pre = [] then 2000 else 10000"
  have w1: "w1 = w\<lparr>console := console w @ [Info ''Starting token polling for conversation:''],
       sessionStorage := (sessionStorage w)(''shopAiTokenPollingId'' \<mapsto> ?pid),
       pollers := pollers w @
         [\<lparr>pollingId = ?pid, conversationId = c, attemptCount = 0, awaiting = False\<rparr>],
       timers := timers w @ [(2000, Poll ?h)],
       scheduled := scheduled w @ [(2000, Poll ?h)]\<rparr>"
    using assms(1,7) by (simp add: startTokenPolling_eq)
  have p: "polling ?h ?pid c 0 (timers w) 2000 w1"
    unfolding assms(7) using assms(1) by (rule polling_started)
  let ?v = "w1\<lparr>pollers := (pollers w1)
          [?h := \<lparr>pollingId = ?pid, conversationId = c, attemptCount = 0 + length pre,
                  awaiting = False\<rparr>],
       requests := requests w1 @ replicate (length pre) (Token_status c),
       console := console w1 @ map answer_log pre,
       timers := timers w @ [(?d, Poll ?h)],
       scheduled := scheduled w1 @ replicate (length pre) (10000, Poll ?h)\<rparr>"
  have v: "run E (ticks (length (timers w)) ?h pre) w1 = ?v"
    using p assms(4,5) by (intro poll_rounds) simp_all
  have pv: "polling ?h ?pid c (0 + length pre) (timers w) ?d ?v"
    using p by (rule polling_after_rounds)
  have mv: "sessionStorage ?v ''shopAiLastMessage'' = Some m"
    using assms(2) by (simp add: w1)
  have "run E [Fire (length (timers w)), Answer ?h (Status (Some ''authorized''))] ?v =
     ?v\<lparr>pollers := (pollers ?v)
          [?h := \<lparr>pollingId = ?pid, conversationId = c, attemptCount = Suc (0 + length pre),
                  awaiting = False\<rparr>],
       requests := requests ?v @ [Token_status c],
       console := console ?v @ [Info ''Token available, resuming conversation''],
       sessionStorage := (sessionStorage ?v)
          (''shopAiLastMessage'' := None, ''shopAiTokenPollingId'' := None),
       timers := timers w @ [(500, Resume m c)],
       scheduled := scheduled ?v @ [(500, Resume m c)]\<rparr>" (is "_ = ?u")
    using pv _ mv assms(3) by (rule authorized_round) (use assms(5) in simp)
  moreover have "w2 = run E [Fire (length (timers w)), Answer ?h (Status (Some ''authorized''))] ?v"
    using assms(8) v by (simp add: ticks_append run_append)
  ultimately have w2: "w2 = ?u"
    by simp
  have s2: "sessionStorage w2 ''shopAiLastMessage'' = None"
    and i2: "sessionStorage w2 ''shopAiTokenPollingId'' = None"
    and t2: "timers w2 = timers w @ [(500, Resume m c)]"
    by (simp_all add: w2)
  have r2: "requests w2 = requests w @ replicate (Suc (length pre)) (Token_status c)"
    by (simp add: w2 w1 replicate_append_same)
  have f: "w3 = resume E m c (w2\<lparr>timers := timers w\<rparr>)"
    using fire_last [OF t2, of E] assms(9) by simp
  have r3: "requests w3 = requests w2 @ [Chat m (Some c)]"
    and t3: "timers w3 = timers w"
    and s3: "sessionStorage w3 = sessionStorage w2"
    by (simp_all add: f resume_requests)
  have "quiescent w3"
    using s2 s3 t3 assms(6) by (simp add: quiescent_def)
  from quiescent_run [OF this, of E evs]
  have "filter is_chat (requests (run E evs w3)) = filter is_chat (requests w3)"
    by simp
  also have "\<dots> = filter is_chat (requests w) @ [Chat m (Some c)]"
    by (simp add: r3 r2)
  finally show ?thesis
    using s2 i2 t2 r2 r3 t3 by simp
qed

lemma sample_pending_idle:
  "timers sample_pending = []" "pollers sample_pending = []" "requests sample_pending = []"
  "sessionStorage sample_pending ''shopAiLastMessage'' = Some ''find my order''"
  by (simp_all add: sample_pending_def sample_session_idle setItem_def)

theorem replay_exactly_once_witness:
  "sessionStorage sample_pending ''shopAiLastMessage'' = Some ''find my order'' \<and>
   list_all (\<lambda>r. \<not> authorized r) [Status (Some ''pending''), Status_rejected] \<and>
   length [Status (Some ''pending''), Status_rejected] < maxAttempts \<and>
   list_all (\<lambda>t. \<not> is_resume t) (timers sample_pending) \<and>
   filter is_chat (requests
     (run sample_env [Fire 0, Answer 0 (Status (Some ''authorized''))]
        (step sample_env (Fire 0)
           (run sample_env
              (ticks 0 0 ([Status (Some ''pending''), Status_rejected] @ [Status (Some ''authorized'')]))
              (startTokenPolling (Some ''c1'') 1000 sample_pending)))))
     = [Chat ''find my order'' (Some ''c1'')]"
proof -
  have h1: "''c1'' \<noteq> []"
    by simp
  have h2: "sessionStorage sample_pending ''shopAiLastMessage'' = Some ''find my order''"
    by (rule sample_pending_idle)
  have h3: "''find my order'' \<noteq> []"
    by simp
  have h4: "list_all (\<lambda>r. \<not> authorized r) [Status (Some ''pending''), Status_rejected]"
    by (simp add: authorized_def)
  have h5: "length [Status (Some ''pending''), Status_rejected] < maxAttempts"
    by (simp add: maxAttempts_def)
  have h6: "list_all (\<lambda>t. \<not> is_resume t) (timers sample_pending)"
    by (simp add: sample_pending_idle)
  note T = replay_exactly_once [where now = 1000 and E = sample_env
      and evs = "[Fire 0, Answer 0 (Status (Some ''authorized''))]",
      OF h1 h2 h3 h4 h5 h6 refl refl refl]
  have "filter is_chat (requests
     (run sample_env [Fire 0, Answer 0 (Status (Some ''authorized''))]
        (step sample_env (Fire (length (timers sample_pending)))
           (run sample_env
              (ticks (length (timers sample_pending)) (length (pollers sample_pending))
                 ([Status (Some ''pending''), Status_rejected] @ [Status (Some ''authorized'')]))
              (startTokenPolling (Some ''c1'') 1000 sample_pending)))))
     = filter is_chat (requests sample_pending) @ [Chat ''find my order'' (Some ''c1'')]"
    using T by (elim conjE)
  then have "filter is_chat (requests
     (run sample_env [Fire 0, Answer 0 (Status (Some ''authorized''))]
        (step sample_env (Fire 0)
           (run sample_env
              (ticks 0 0 ([Status (Some ''pending''), Status_rejected] @ [Status (Some ''authorized'')]))
              (startTokenPolling (Some ''c1'') 1000 sample_pending)))))
     = [Chat ''find my order'' (Some ''c1'')]"
    unfolding sample_pending_idle by (simp only: list.size filter.simps append_Nil)
  with h2 h4 h5 h6 show ?thesis
    by (intro conjI)
qed

section \<open>Session identifiers\<close>

lemma digit_inj: "i < 10 \<Longrightarrow> j < 10 \<Longrightarrow> digit i = digit j \<Longrightarrow> i = j"
proof -
  assume i: "i < 10" and j: "j < 10" and e: "digit i = digit j"
  have d: "distinct ''0123456789''" by simp
  have l: "length ''0123456789'' = 10" by simp
  from e have "''0123456789'' ! i = ''0123456789'' ! j" by (simp only: digit_def)
  with d i j l show ?thesis by (simp only: nth_eq_iff_index_eq)
qed

lemma dec_small: "n < 10 \<Longrightarrow> dec n = [digit n]"
  by (subst dec.simps) simp

lemma dec_large: "\<not> n < 10 \<Longrightarrow> dec n = dec (n div 10) @ [digit (n mod 10)]"
  by (subst dec.simps) simp

lemma dec_not_Nil: "dec n \<noteq> []"
  by (cases "n < 10") (simp_all add: dec_small dec_large)

lemma dec_inj: "dec n = dec m \<Longrightarrow> n = m"
proof (induction n arbitrary: m rule: dec.induct)
  case (1 n)
  show ?case
  proof (cases "n < 10")
    case True
    show ?thesis
    proof (cases "m < 10")
      case True
      with \<open>n < 10\<close> 1(2) show ?thesis by (simp add: dec_small digit_inj)
    next
      case False
      with \<open>n < 10\<close> 1(2) dec_not_Nil [of "m div 10"] show ?thesis
        by (simp add: dec_small dec_large)
    qed
  next
    case False
    show ?thesis
    proof (cases "m < 10")
      case True
      with \<open>\<not> n < 10\<close> 1(2) dec_not_Nil [of "n div 10"] show ?thesis
        by (simp add: dec_small dec_large)
    next
      case m: False
      from False m 1(2) have a: "dec (n div 10) = dec (m div 10)"
        and b: "digit (n mod 10) = digit (m mod 10)"
        by (simp_all add: dec_large)
      from 1(1) [OF False a] have "n div 10 = m div 10" .
      moreover from b have "n mod 10 = m mod 10"
        by (intro digit_inj) simp_all
      ultimately show ?thesis
        by (metis div_mult_mod_eq)
    qed
  qed
qed

section \<open>The fence\<close>

lemma step_keeps_pollers:
  assumes "a < length (pollers w)"
  shows "a < length (pollers (step E e w)) \<and>
         pollingId (pollers (step E e w) ! a) = pollingId (pollers w ! a)"
proof (cases e)
  case (Click now)
  with assms show ?thesis
    by (simp add: openAuthPopup_def startTokenPolling_def setTimeout_def setItem_def log_info_def
        Message_add_def appendChild_def nth_append split: option.splits)
next
  case (Start conv now)
  with assms show ?thesis
    by (simp add: startTokenPolling_def setTimeout_def setItem_def log_info_def nth_append
        split: option.splits)
next
  case (Fire k)
  with assms show ?thesis
    by (simp add: poll_def log_info_def resume_def showTypingIndicator_def begin_stream_def
        Message_add_def appendChild_def nth_list_update split: callback.splits)
next
  case (Answer h resp)
  with assms show ?thesis
    by (cases resp)
       (simp_all add: poll_answer_def Let_def setTimeout_def log_info_def log_error_def
          removeItem_def nth_list_update split: option.splits)
qed

lemma step_keeps_fence:
  assumes "sessionStorage w ''shopAiTokenPollingId'' \<noteq> Some (''polling_'' @ dec t)"
    and "\<not> starts_at t e"
  shows "sessionStorage (step E e w) ''shopAiTokenPollingId'' \<noteq> Some (''polling_'' @ dec t)"
proof (cases e)
  case (Click now)
  with assms show ?thesis
    by (auto simp: openAuthPopup_def startTokenPolling_def setItem_def dest: dec_inj
        split: option.splits)
next
  case (Start conv now)
  with assms show ?thesis
    by (auto simp: startTokenPolling_def setItem_def dest: dec_inj split: option.splits)
next
  case (Fire k)
  with assms show ?thesis
    by (simp add: poll_storage resume_requests split: callback.splits)
next
  case (Answer h resp)
  with assms show ?thesis
    by (cases resp)
       (simp_all add: poll_answer_def Let_def removeItem_def split: option.splits)
qed

lemma run_keeps_fence:
  "a < length (pollers w) \<Longrightarrow>
   sessionStorage w ''shopAiTokenPollingId'' \<noteq> Some (''polling_'' @ dec t) \<Longrightarrow>
   list_all (\<lambda>e. \<not> starts_at t e) evs \<Longrightarrow>
   a < length (pollers (run E evs w)) \<and>
   pollingId (pollers (run E evs w) ! a) = pollingId (pollers w ! a) \<and>
   sessionStorage (run E evs w) ''shopAiTokenPollingId'' \<noteq> Some (''polling_'' @ dec t)"
proof (induction evs arbitrary: w)
  case Nil
  then show ?case by simp
next
  case (Cons e evs)
  have k: "a < length (pollers (step E e w))"
    and i: "pollingId (pollers (step E e w) ! a) = pollingId (pollers w ! a)"
    using step_keeps_pollers [OF Cons.prems(1), of E e] by simp_all
  have f: "sessionStorage (step E e w) ''shopAiTokenPollingId'' \<noteq> Some (''polling_'' @ dec t)"
    using Cons.prems by (intro step_keeps_fence) simp_all
  from Cons.IH [OF k f] Cons.prems(3) i show ?case by simp
qed

text \<open>
  C2, as the code has it. The fence is read at the start of a tick. Let a session A have
  the identifier of its start time, and let a session B be started when the clock shows
  another value. From then on, as long as no session is started at A's clock value, the
  stored identifier is not A's, whatever the handlers of the poller do in between; and
  whenever a timeout of A fires, that tick logs that the session was superseded and does
  nothing else: no request, no new timeout, no change to the storage or to any polling
  closure, and no error. (A tick of A that was waiting for its answer when B started is
  not a later tick; the statement leaves it out.)
\<close>

theorem superseded_tick_is_noop:
  assumes "a < length (pollers w)"
    and "pollingId (pollers w ! a) = ''polling_'' @ dec nowA"
    and "c \<noteq> []"
    and "nowB \<noteq> nowA"
    and "list_all (\<lambda>e. \<not> starts_at nowA e) evs"
    and "v = run E evs (startTokenPolling (Some c) nowB w)"
    and "i < length (timers v)"
    and "timers v ! i = (d, Poll a)"
  shows "sessionStorage (startTokenPolling (Some c) nowB w) ''shopAiTokenPollingId''
           = Some (''polling_'' @ dec nowB) \<and>
         sessionStorage v ''shopAiTokenPollingId'' \<noteq> Some (pollingId (pollers v ! a)) \<and>
         step E (Fire i) v =
           v\<lparr>timers := take i (timers v) @ drop (Suc i) (timers v),
             console := console v @ [Info ''Another polling session has started, stopping this one'']\<rparr>"
proof -
  let ?b = "startTokenPolling (Some c) nowB w"
  have sb: "sessionStorage ?b ''shopAiTokenPollingId'' = Some (''polling_'' @ dec nowB)"
    using assms(3) by (simp add: startTokenPolling_eq)
  have "dec nowB \<noteq> dec nowA"
    using assms(4) dec_inj by blast
  then have fb: "sessionStorage ?b ''shopAiTokenPollingId'' \<noteq> Some (''polling_'' @ dec nowA)"
    using sb by simp
  have ab: "a < length (pollers ?b)" and ib: "pollingId (pollers ?b ! a) = ''polling_'' @ dec nowA"
    using assms(1,2,3) by (simp_all add: startTokenPolling_eq nth_append)
  from run_keeps_fence [OF ab fb assms(5), of E]
  have av: "a < length (pollers v)"
    and iv: "pollingId (pollers v ! a) = ''polling_'' @ dec nowA"
    and fv: "sessionStorage v ''shopAiTokenPollingId'' \<noteq> Some (''polling_'' @ dec nowA)"
    using ib assms(6) by simp_all
  let ?u = "v\<lparr>timers := take i (timers v) @ drop (Suc i) (timers v)\<rparr>"
  have "step E (Fire i) v = poll a ?u"
    using assms(7,8) by simp
  also have "poll a ?u = log_info ''Another polling session has started, stopping this one'' ?u"
    using av iv fv by (intro poll_superseded) simp_all
  finally have "step E (Fire i) v =
           v\<lparr>timers := take i (timers v) @ drop (Suc i) (timers v),
             console := console v @ [Info ''Another polling session has started, stopping this one'']\<rparr>"
    by (simp add: log_info_def)
  then show ?thesis
    using sb iv fv by simp
qed

lemma sample_started_eq:
  "sample_started =
     sample_pending\<lparr>console := [Info ''Starting token polling for conversation:''],
       sessionStorage := (sessionStorage sample_pending)(''shopAiTokenPollingId'' \<mapsto> ''polling_'' @ dec 1000),
       pollers := [\<lparr>pollingId = ''polling_'' @ dec 1000, conversationId = ''c1'', attemptCount = 0,
           awaiting = False\<rparr>],
       timers := [(2000, Poll 0)],
       scheduled := [(2000, Poll 0)]\<rparr>"
proof -
  have "console sample_pending = []" and "scheduled sample_pending = []"
    by (simp_all add: sample_pending_def sample_session_def setItem_def sample_page_def
        appendChild_def empty_world_def)
  then show ?thesis
    unfolding sample_started_def
    by (subst startTokenPolling_eq) (simp_all add: sample_pending_idle)
qed

theorem superseded_tick_is_noop_witness:
  "pollingId (pollers sample_started ! 0) = ''polling_'' @ dec 1000 \<and>
   timers (startTokenPolling (Some ''c1'') 3050 sample_started) ! 0 = (2000, Poll 0) \<and>
   step sample_env (Fire 0) (startTokenPolling (Some ''c1'') 3050 sample_started) =
     (startTokenPolling (Some ''c1'') 3050 sample_started)
       \<lparr>timers := [(2000, Poll 1)],
        console := console (startTokenPolling (Some ''c1'') 3050 sample_started) @
          [Info ''Another polling session has started, stopping this one'']\<rparr>"
proof -
  let ?v = "startTokenPolling (Some ''c1'') 3050 sample_started"
  have h1: "0 < length (pollers sample_started)"
    by (simp add: sample_started_eq)
  have h2: "pollingId (pollers sample_started ! 0) = ''polling_'' @ dec 1000"
    by (simp add: sample_started_eq)
  have h3: "''c1'' \<noteq> []"
    by simp
  have h4: "(3050::nat) \<noteq> 1000"
    by simp
  have h5: "list_all (\<lambda>e. \<not> starts_at 1000 e) []"
    by simp
  have h6: "?v = run sample_env [] ?v"
    by simp
  have tv: "timers ?v = [(2000, Poll 0), (2000, Poll 1)]"
    by (simp add: startTokenPolling_eq sample_started_eq)
  have h7: "0 < length (timers ?v)"
    by (simp add: tv)
  have h8: "timers ?v ! 0 = (2000, Poll 0)"
    by (simp add: tv)
  have "step sample_env (Fire 0) ?v =
           ?v\<lparr>timers := take 0 (timers ?v) @ drop (Suc 0) (timers ?v),
             console := console ?v @ [Info ''Another polling session has started, stopping this one'']\<rparr>"
    using superseded_tick_is_noop [OF h1 h2 h3 h4 h5 h6 h7 h8] by (elim conjE)
  then have "step sample_env (Fire 0) ?v =
           ?v\<lparr>timers := [(2000, Poll 1)],
             console := console ?v @ [Info ''Another polling session has started, stopping this one'']\<rparr>"
    by (simp only: tv take_0 drop_Suc_Cons drop_0 append_Nil)
  with h2 h8 show ?thesis
    by (intro conjI)
qed

lemma sample_clock_texts: "dec 1000 = ''1000''" "dec 3050 = ''3050''"
  by (simp_all add: dec.simps digit_def)

lemma sample_overlap_eq:
  "sample_overlap =
     sample_pending\<lparr>console := [Info ''Starting token polling for conversation:'',
          Info ''Starting token polling for conversation:''],
       sessionStorage := (sessionStorage sample_pending)(''shopAiTokenPollingId'' \<mapsto> ''polling_3050''),
       pollers := [\<lparr>pollingId = ''polling_1000'', conversationId = ''c1'', attemptCount = 1,
           awaiting = True\<rparr>,
          \<lparr>pollingId = ''polling_3050'', conversationId = ''c1'', attemptCount = 0,
           awaiting = False\<rparr>],
       timers := [(2000, Poll 1)],
       scheduled := [(2000, Poll 0), (2000, Poll 1)],
       requests := [Token_status ''c1'']\<rparr>"
  by (simp add: sample_overlap_def sample_started_eq poll_def maxAttempts_def startTokenPolling_eq
      sample_clock_texts sample_pending_idle)

text \<open>
  Session A is started at 1000 and its first tick sends its status request; session B is
  started at 3050 while that request is in flight, and the stored identifier is B's. When
  A's request is then answered \<^verbatim>\<open>authorized\<close>, A removes the stored identifier and the
  pending message and sets the timeout of the replay.
\<close>

theorem inflight_tick_acts_after_supersession:
  "awaiting (pollers sample_overlap ! 0) \<and>
   pollingId (pollers sample_overlap ! 0) = ''polling_1000'' \<and>
   sessionStorage sample_overlap ''shopAiTokenPollingId'' = Some ''polling_3050'' \<and>
   sessionStorage sample_overlap ''shopAiLastMessage'' = Some ''find my order'' \<and>
   sessionStorage (step sample_env (Answer 0 (Status (Some ''authorized''))) sample_overlap)
     ''shopAiTokenPollingId'' = None \<and>
   sessionStorage (step sample_env (Answer 0 (Status (Some ''authorized''))) sample_overlap)
     ''shopAiLastMessage'' = None \<and>
   timers (step sample_env (Answer 0 (Status (Some ''authorized''))) sample_overlap)
     = [(2000, Poll 1), (500, Resume ''find my order'' ''c1'')]"
  by (simp add: sample_overlap_eq sample_pending_idle poll_answer_def Let_def removeItem_def
      setTimeout_def log_info_def)


end
